theory Spec2Isabelle
  imports Complex_Main
begin

section \<open>Python and numpy values\<close>

text \<open>
  The exceptions the modelled code can raise. \<open>EvaluatorError\<close> stands for any failure of
  the neural network's \<open>predict\<close>.
\<close>

datatype error = IndexError | ValueError | ZeroDivisionError | OverflowError | EvaluatorError

text \<open>A board position \<open>(row, col)\<close>; an action of the game is the square played.\<close>

type_synonym action = "nat \<times> nat"

text \<open>
  A float64: a finite value, an infinity, or NaN (the result of \<open>0 / 0\<close>). A finite value is
  idealised as a real, so rounding within the range is not modelled; leaving the range is
  (see \<open>float_max\<close> and \<open>float_tiny\<close> below).
\<close>

datatype float64 = Fin real | PosInf | NegInf | NaN

text \<open>What \<open>predict\<close> returns: the action probabilities (indexed by square) and the state value.\<close>

type_synonym prediction = "(action \<Rightarrow> real) \<times> real"

text \<open>\<open>np.zeros((n, n))\<close>: a two-dimensional array as the list of its rows.\<close>

definition zeros :: "nat \<Rightarrow> real list list" where
  "zeros n = replicate n (replicate n 0)"

definition ncols :: "'a list list \<Rightarrow> nat" where
  "ncols p = (case p of [] \<Rightarrow> 0 | row # _ \<Rightarrow> length row)"

text \<open>\<open>p[row, col] = v\<close>: raises IndexError outside the array.\<close>

definition setitem :: "'a list list \<Rightarrow> action \<Rightarrow> 'a \<Rightarrow> error + 'a list list" where
  "setitem p a v =
     (case a of (row, col) \<Rightarrow>
        if row < length p \<and> col < ncols p
        then Inr (p[row := (p ! row)[col := v]])
        else Inl IndexError)"

text \<open>
  The loop \<open>for action in actions: row, col = action; p[row, col] = f(action)\<close>. The right-hand
  side is evaluated before the store, so its exception comes first.
\<close>

fun assign_each ::
  "(action \<Rightarrow> error + 'a) \<Rightarrow> action list \<Rightarrow> 'a list list \<Rightarrow> error + 'a list list" where
  "assign_each f [] p = Inr p"
| "assign_each f (a # as) p =
     (case f a of
        Inl e \<Rightarrow> Inl e
      | Inr v \<Rightarrow> (case setitem p a v of Inl e \<Rightarrow> Inl e | Inr p' \<Rightarrow> assign_each f as p'))"

text \<open>\<open>p.max()\<close>: numpy raises ValueError on an array with no element.\<close>

definition amax :: "real list list \<Rightarrow> error + real" where
  "amax p = (case concat p of [] \<Rightarrow> Inl ValueError | x # xs \<Rightarrow> Inr (fold max xs x))"

text \<open>The index pairs of an array in row-major order, and \<open>np.argwhere\<close> of a mask.\<close>

definition indices :: "'a list list \<Rightarrow> action list" where
  "indices p = List.product [0..<length p] [0..<ncols p]"

definition argwhere :: "('a \<Rightarrow> bool) \<Rightarrow> 'a list list \<Rightarrow> action list" where
  "argwhere P p = filter (\<lambda>(row, col). P (p ! row ! col)) (indices p)"

text \<open>
  \<open>random.choice(seq)\<close> returns \<open>seq[k]\<close> for a \<open>k\<close> drawn uniformly below \<open>len(seq)\<close>. The
  generator's draw is the argument \<open>r\<close>, reduced below the length.
\<close>

definition random_choice :: "nat \<Rightarrow> 'a list \<Rightarrow> error + 'a" where
  "random_choice r xs = (if xs = [] then Inl IndexError else Inr (xs ! (r mod length xs)))"

text \<open>
  The range of float64: a result above \<open>float_max\<close> in magnitude overflows, and a quotient or
  power of magnitude at most \<open>float_tiny\<close> (half the least subnormal) is rounded to zero.
\<close>

definition float_max :: real where
  "float_max = (2 - 1 / 2 ^ 52) * 2 ^ 1023"

definition float_tiny :: real where
  "float_tiny = 1 / 2 ^ 1075"

text \<open>Addition of floats: it overflows to an infinity and never raises.\<close>

definition f_add :: "float64 \<Rightarrow> float64 \<Rightarrow> float64" where
  "f_add x y =
     (case x of
        NaN \<Rightarrow> NaN
      | Fin a \<Rightarrow>
          (case y of
             NaN \<Rightarrow> NaN
           | Fin b \<Rightarrow>
               (if float_max < a + b then PosInf
                else if a + b < - float_max then NegInf else Fin (a + b))
           | PosInf \<Rightarrow> PosInf
           | NegInf \<Rightarrow> NegInf)
      | PosInf \<Rightarrow> (case y of NaN \<Rightarrow> NaN | NegInf \<Rightarrow> NaN | _ \<Rightarrow> PosInf)
      | NegInf \<Rightarrow> (case y of NaN \<Rightarrow> NaN | PosInf \<Rightarrow> NaN | _ \<Rightarrow> NegInf))"

text \<open>
  Division of floats. numpy's never raises: \<open>0 / 0\<close> is NaN and \<open>x / 0\<close> an infinity. Python's
  \<open>1 / temperature\<close> is the same operation for a temperature other than zero, the only case
  in which the code performs it: the quotient is an infinity when it overflows and zero when
  it is too small.
\<close>

definition true_divide :: "float64 \<Rightarrow> float64 \<Rightarrow> float64" where
  "true_divide x y =
     (case x of
        NaN \<Rightarrow> NaN
      | Fin a \<Rightarrow>
          (case y of
             NaN \<Rightarrow> NaN
           | Fin b \<Rightarrow>
               (if b = 0 then (if a = 0 then NaN else if 0 < a then PosInf else NegInf)
                else if float_max < a / b then PosInf
                else if a / b < - float_max then NegInf
                else if \<bar>a / b\<bar> \<le> float_tiny then Fin 0 else Fin (a / b))
           | PosInf \<Rightarrow> Fin 0
           | NegInf \<Rightarrow> Fin 0)
      | PosInf \<Rightarrow> (case y of Fin b \<Rightarrow> (if 0 \<le> b then PosInf else NegInf) | _ \<Rightarrow> NaN)
      | NegInf \<Rightarrow> (case y of Fin b \<Rightarrow> (if 0 \<le> b then NegInf else PosInf) | _ \<Rightarrow> NaN))"

text \<open>
  \<open>n ** e\<close> for a visit count \<open>n\<close> (a Python int) and a float exponent \<open>e\<close>. The int is
  converted to a float first. Python raises ZeroDivisionError for zero to a negative power
  and OverflowError when the power exceeds the float range; a power too small is zero; an
  infinite exponent raises nothing.
\<close>

definition py_pow :: "nat \<Rightarrow> float64 \<Rightarrow> error + float64" where
  "py_pow n e =
     (if float_max < real n then Inl OverflowError
      else case e of
        NaN \<Rightarrow> Inr (if n = 1 then Fin 1 else NaN)
      | PosInf \<Rightarrow> Inr (if n = 1 then Fin 1 else if 1 < n then PosInf else Fin 0)
      | NegInf \<Rightarrow> Inr (if n = 1 then Fin 1 else if 1 < n then Fin 0 else PosInf)
      | Fin x \<Rightarrow>
          if x = 0 then Inr (Fin 1)
          else if n = 0 then (if x < 0 then Inl ZeroDivisionError else Inr (Fin 0))
          else if float_max < real n powr x then Inl OverflowError
          else if real n powr x \<le> float_tiny then Inr (Fin 0)
          else Inr (Fin (real n powr x)))"

text \<open>
  \<open>np.sum(p)\<close>: the entries added up from zero. numpy adds them pairwise; the entries here
  are never negative, so the order changes neither the exact sum nor whether it overflows.
\<close>

definition np_sum :: "float64 list list \<Rightarrow> float64" where
  "np_sum p = fold (\<lambda>x acc. f_add acc x) (concat p) (Fin 0)"

section \<open>The search tree: class OthelloMCTS\<close>

text \<open>
  The attributes of an \<open>OthelloMCTS\<close> instance. \<open>self_base\<close> holds what the base class \<open>MCTS\<close>
  keeps (the edge statistics); the key of the prediction cache is the state's hash.
\<close>

record ('k, 'e) OthelloMCTS =
  self_board_size :: nat
  self_neural_network :: nat
  self_predict_cache :: "'k \<rightharpoonup> prediction"
  self_base :: 'e

text \<open>
  The base class \<open>MCTS\<close> is not among the sources. Its constructor and the three methods the
  code calls are parameters: \<open>simulate\<close>, the visit count \<open>N(state, action)\<close> and
  \<open>_get_state_actions(state)\<close>.
\<close>

record ('k, 'e, 'b) MCTS =
  mcts_init :: "int \<Rightarrow> 'e"
  mcts_simulate :: "('k, 'e) OthelloMCTS \<Rightarrow> 'b \<Rightarrow> ('k, 'e) OthelloMCTS"
  mcts_N :: "('k, 'e) OthelloMCTS \<Rightarrow> 'b \<Rightarrow> action \<Rightarrow> nat"
  mcts_get_state_actions :: "('k, 'e) OthelloMCTS \<Rightarrow> 'b \<Rightarrow> action list"

text \<open>
  \<open>OthelloMCTS.__init__(board_size, neural_network, degree_exploration)\<close>: the prediction cache
  starts empty, the base class initialises its own attributes.
\<close>

definition OthelloMCTS_init ::
  "('k, 'e, 'b) MCTS \<Rightarrow> nat \<Rightarrow> nat \<Rightarrow> int \<Rightarrow> ('k, 'e) OthelloMCTS" where
  "OthelloMCTS_init M board_size neural_network degree_exploration =
     \<lparr>self_board_size = board_size, self_neural_network = neural_network,
      self_predict_cache = Map.empty, self_base = mcts_init M degree_exploration\<rparr>"

text \<open>
  \<open>OthelloMCTS.get_policy_action_probabilities(state, temperature)\<close>. The last argument is the
  draw of the random generator used by \<open>random.choice\<close>. At temperature 0 the array holds
  visit counts, which are whole numbers far inside the float range, and is kept as reals;
  otherwise the same array of zeros is filled with the powers, which are floats.
\<close>

definition get_policy_action_probabilities ::
  "('k, 'e, 'b) MCTS \<Rightarrow> ('k, 'e) OthelloMCTS \<Rightarrow> 'b \<Rightarrow> real \<Rightarrow> nat \<Rightarrow> error + float64 list list" where
  "get_policy_action_probabilities M self state temperature r =
     (let probabilities = zeros (self_board_size self) in
      if temperature = 0 then
        (case assign_each (\<lambda>action. Inr (real (mcts_N M self state action)))
                (mcts_get_state_actions M self state) probabilities of
           Inl e \<Rightarrow> Inl e
         | Inr probabilities \<Rightarrow>
             (case amax probabilities of
                Inl e \<Rightarrow> Inl e
              | Inr m \<Rightarrow>
                  (case random_choice r (argwhere (\<lambda>x. x = m) probabilities) of
                     Inl e \<Rightarrow> Inl e
                   | Inr best \<Rightarrow>
                       (case setitem (zeros (self_board_size self)) best 1 of
                          Inl e \<Rightarrow> Inl e
                        | Inr probabilities \<Rightarrow> Inr (map (map Fin) probabilities)))))
      else
        (case assign_each
                (\<lambda>action. py_pow (mcts_N M self state action)
                            (true_divide (Fin 1) (Fin temperature)))
                (mcts_get_state_actions M self state) (map (map Fin) probabilities) of
           Inl e \<Rightarrow> Inl e
         | Inr probabilities \<Rightarrow>
             Inr (map (map (\<lambda>x. true_divide x (np_sum probabilities))) probabilities)))"

section \<open>Arrays: auxiliary facts\<close>

definition square :: "nat \<Rightarrow> 'a list list \<Rightarrow> bool" where
  "square n p = (length p = n \<and> list_all (\<lambda>row. length row = n) p)"

lemma square_zeros: "square n (zeros n)"
  by (simp add: square_def zeros_def list_all_iff)

lemma square_row: "square n p \<Longrightarrow> i < n \<Longrightarrow> length (p ! i) = n"
  by (simp add: square_def list_all_length)

lemma square_ncols: "square n p \<Longrightarrow> ncols p = n"
  by (cases p) (auto simp: square_def ncols_def)

lemma zeros_nth: "i < n \<Longrightarrow> j < n \<Longrightarrow> zeros n ! i ! j = 0"
  by (simp add: zeros_def)

lemma setitem_square:
  assumes "square n p" "row < n" "col < n"
  shows "setitem p (row, col) v = Inr (p[row := (p ! row)[col := v]])"
    and "square n (p[row := (p ! row)[col := v]])"
proof -
  show "setitem p (row, col) v = Inr (p[row := (p ! row)[col := v]])"
    using assms by (simp add: setitem_def square_ncols) (simp add: square_def)
  show "square n (p[row := (p ! row)[col := v]])"
    using assms unfolding square_def list_all_length
    by (auto simp: nth_list_update)
qed

lemma setitem_outside:
  "square n p \<Longrightarrow> \<not> (row < n \<and> col < n) \<Longrightarrow> setitem p (row, col) v = Inl IndexError"
  by (auto simp: setitem_def square_ncols) (auto simp: square_def)

lemma update_nth:
  assumes "square n p" "i < n" "j < n"
  shows "p[row := (p ! row)[col := v]] ! i ! j = (if (i, j) = (row, col) then v else p ! i ! j)"
proof (cases "i = row")
  case True
  then show ?thesis
    using assms by (simp add: square_def list_all_length nth_list_update)
next
  case False
  then show ?thesis
    using assms by (simp add: square_def)
qed

lemma assign_each_ok:
  assumes "square n p"
    and "\<And>a. a \<in> set as \<Longrightarrow> fst a < n \<and> snd a < n"
    and "\<And>a. a \<in> set as \<Longrightarrow> f a = Inr (g a)"
  shows "\<exists>p'. assign_each f as p = Inr p' \<and> square n p' \<and>
           (\<forall>i<n. \<forall>j<n. p' ! i ! j = (if (i, j) \<in> set as then g (i, j) else p ! i ! j))"
  using assms
proof (induction as arbitrary: p)
  case Nil
  then show ?case by simp
next
  case (Cons a as)
  obtain row col where a: "a = (row, col)" by (cases a)
  have rng: "row < n" "col < n" using Cons.prems(2)[of a] a by auto
  let ?p1 = "p[row := (p ! row)[col := g a]]"
  have s1: "setitem p a (g a) = Inr ?p1" and sq1: "square n ?p1"
    using setitem_square[OF Cons.prems(1) rng] a by auto
  have fa: "f a = Inr (g a)" using Cons.prems(3) by simp
  from Cons.IH[OF sq1] Cons.prems(2,3)
  obtain p' where p': "assign_each f as ?p1 = Inr p'" "square n p'"
    "\<forall>i<n. \<forall>j<n. p' ! i ! j = (if (i, j) \<in> set as then g (i, j) else ?p1 ! i ! j)"
    by auto
  have "assign_each f (a # as) p = Inr p'"
    using fa s1 p'(1) by simp
  moreover have "\<forall>i<n. \<forall>j<n. p' ! i ! j = (if (i, j) \<in> set (a # as) then g (i, j) else p ! i ! j)"
  proof (intro allI impI)
    fix i j assume ij: "i < n" "j < n"
    have "?p1 ! i ! j = (if (i, j) = (row, col) then g a else p ! i ! j)"
      using update_nth[OF Cons.prems(1) ij] by simp
    with p'(3) ij a show "p' ! i ! j = (if (i, j) \<in> set (a # as) then g (i, j) else p ! i ! j)"
      by auto
  qed
  ultimately show ?case using p'(2) by blast
qed

lemma set_concat_square:
  assumes "square n p"
  shows "set (concat p) = {p ! i ! j |i j. i < n \<and> j < n}"
proof (intro set_eqI iffI)
  fix x assume "x \<in> set (concat p)"
  then obtain row where row: "row \<in> set p" "x \<in> set row" by auto
  from row(1) obtain i where i: "i < length p" "p ! i = row"
    by (auto simp: in_set_conv_nth)
  from row(2) obtain j where j: "j < length row" "row ! j = x"
    by (auto simp: in_set_conv_nth)
  have "i < n" using i(1) assms by (simp add: square_def)
  moreover have "j < n" using j(1) i(2) square_row[OF assms \<open>i < n\<close>] by simp
  ultimately show "x \<in> {p ! i ! j |i j. i < n \<and> j < n}"
    using i(2) j(2) by blast
next
  fix x assume "x \<in> {p ! i ! j |i j. i < n \<and> j < n}"
  then obtain i j where ij: "i < n" "j < n" "x = p ! i ! j" by blast
  have "p ! i \<in> set p" using ij(1) assms by (simp add: square_def)
  moreover have "x \<in> set (p ! i)"
    using ij square_row[OF assms ij(1)] by simp
  ultimately show "x \<in> set (concat p)" by auto
qed

lemma amax_square:
  assumes "square n p" "0 < n"
  shows "\<exists>m. amax p = Inr m \<and> (\<exists>i<n. \<exists>j<n. p ! i ! j = m) \<and> (\<forall>i<n. \<forall>j<n. p ! i ! j \<le> m)"
proof -
  have "p ! 0 ! 0 \<in> set (concat p)"
    unfolding set_concat_square[OF assms(1)] using assms(2) by blast
  then have ne: "set (concat p) \<noteq> {}" by (metis empty_iff)
  then obtain x xs where c: "concat p = x # xs"
    by (cases "concat p") auto
  let ?m = "fold max xs x"
  have m: "?m = Max (set (concat p))"
    unfolding c by (rule Max.set_eq_fold[symmetric])
  have "?m \<in> set (concat p)"
    unfolding m using ne by (intro Max_in) auto
  then obtain i0 j0 where "i0 < n" "j0 < n" "?m = p ! i0 ! j0"
    unfolding set_concat_square[OF assms(1)] by auto
  then have 1: "\<exists>i<n. \<exists>j<n. p ! i ! j = ?m" by metis
  have 2: "\<forall>i<n. \<forall>j<n. p ! i ! j \<le> ?m"
  proof (intro allI impI)
    fix i j assume "i < n" "j < n"
    then have "p ! i ! j \<in> set (concat p)"
      unfolding set_concat_square[OF assms(1)] by auto
    then show "p ! i ! j \<le> ?m"
      unfolding m by (intro Max_ge) auto
  qed
  have "amax p = Inr ?m" by (simp add: amax_def c)
  with 1 2 show ?thesis by blast
qed

lemma amax_empty: "amax (zeros 0) = Inl ValueError"
  by (simp add: amax_def zeros_def)

lemma argwhere_square:
  assumes "square n p"
  shows "set (argwhere P p) = {(i, j). i < n \<and> j < n \<and> P (p ! i ! j)}"
    and "distinct (argwhere P p)"
proof -
  have l: "length p = n" using assms by (simp add: square_def)
  show "set (argwhere P p) = {(i, j). i < n \<and> j < n \<and> P (p ! i ! j)}"
    by (auto simp: argwhere_def indices_def square_ncols[OF assms] l)
  show "distinct (argwhere P p)"
    by (simp add: argwhere_def indices_def distinct_product)
qed

lemma random_choice_nonempty:
  "xs \<noteq> [] \<Longrightarrow> random_choice r xs = Inr (xs ! (r mod length xs)) \<and> xs ! (r mod length xs) \<in> set xs"
  by (simp add: random_choice_def)

lemma square_map: "square n q \<Longrightarrow> square n (map (map f) q)"
  by (simp add: square_def list_all_iff)

lemma map_map_nth:
  assumes "square n q" "i < n" "j < n"
  shows "map (map f) q ! i ! j = f (q ! i ! j)"
proof -
  have "length q = n" using assms(1) by (simp add: square_def)
  moreover have "length (q ! i) = n" using assms by (simp add: square_row)
  ultimately show ?thesis using assms by simp
qed

lemma square_all_zero:
  assumes "square n p" "\<And>i j. i < n \<Longrightarrow> j < n \<Longrightarrow> p ! i ! j = 0"
  shows "p = zeros n"
proof (rule nth_equalityI)
  show "length p = length (zeros n)"
    using assms(1) by (simp add: square_def zeros_def)
next
  fix i assume "i < length p"
  then have i: "i < n" using assms(1) by (simp add: square_def)
  show "p ! i = zeros n ! i"
  proof (rule nth_equalityI)
    show "length (p ! i) = length (zeros n ! i)"
      using square_row[OF assms(1) i] i by (simp add: zeros_def)
  next
    fix j assume "j < length (p ! i)"
    then have "j < n" using square_row[OF assms(1) i] by simp
    then show "p ! i ! j = zeros n ! i ! j"
      using assms(2) i by (simp add: zeros_nth)
  qed
qed

lemma sum_list_concat_rows: "sum_list (concat (p :: real list list)) = sum_list (map sum_list p)"
  by (induction p) simp_all

lemma sum_list_square:
  fixes p :: "real list list"
  assumes "square n p"
  shows "sum_list (concat p) = (\<Sum>i<n. \<Sum>j<n. p ! i ! j)"
proof -
  have l: "length p = n" using assms by (simp add: square_def)
  have "sum_list (concat p) = sum_list (map sum_list p)"
    by (rule sum_list_concat_rows)
  also have "\<dots> = (\<Sum>i = 0..<n. sum_list (p ! i))"
    by (simp add: sum_list_sum_nth l)
  also have "\<dots> = (\<Sum>i = 0..<n. \<Sum>j = 0..<n. p ! i ! j)"
    by (rule sum.cong) (simp_all add: sum_list_sum_nth square_row[OF assms])
  finally show ?thesis by (simp add: atLeast0LessThan)
qed

lemma matrix_eqI:
  assumes "square n p" "square n q" "\<And>i j. i < n \<Longrightarrow> j < n \<Longrightarrow> p ! i ! j = q ! i ! j"
  shows "p = q"
proof (rule nth_equalityI)
  show "length p = length q" using assms(1,2) by (simp add: square_def)
next
  fix i assume "i < length p"
  then have i: "i < n" using assms(1) by (simp add: square_def)
  show "p ! i = q ! i"
  proof (rule nth_equalityI)
    show "length (p ! i) = length (q ! i)"
      using square_row[OF assms(1) i] square_row[OF assms(2) i] by simp
  next
    fix j assume "j < length (p ! i)"
    then have "j < n" using square_row[OF assms(1) i] by simp
    then show "p ! i ! j = q ! i ! j" using assms(3) i by simp
  qed
qed

text \<open>The array whose entry at \<open>(i, j)\<close> is \<open>w (i, j)\<close>.\<close>

definition table :: "nat \<Rightarrow> (action \<Rightarrow> 'a) \<Rightarrow> 'a list list" where
  "table n w = map (\<lambda>i. map (\<lambda>j. w (i, j)) [0..<n]) [0..<n]"

lemma square_table: "square n (table n w)"
  by (simp add: square_def table_def list_all_iff)

lemma table_nth: "i < n \<Longrightarrow> j < n \<Longrightarrow> table n w ! i ! j = w (i, j)"
  by (simp add: table_def)

section \<open>Floats: auxiliary facts\<close>

lemma float_max_ge: "2 ^ 1023 \<le> float_max"
proof -
  have a: "(1::real) \<le> 2 - 1 / 2 ^ 52" by simp
  have p: "(0::real) \<le> 2 ^ 1023" by (rule zero_le_power) simp
  have "1 * 2 ^ 1023 \<le> (2 - 1 / 2 ^ 52) * (2::real) ^ 1023"
    by (rule mult_right_mono[OF a p])
  then show ?thesis by (simp only: float_max_def mult_1)
qed

lemma float_max_lt: "float_max < 2 ^ Suc 1023"
proof -
  have b: "2 - 1 / 2 ^ 52 < (2::real)" by simp
  have p: "(0::real) < 2 ^ 1023" by (rule zero_less_power) simp
  have "(2 - 1 / 2 ^ 52) * (2::real) ^ 1023 < 2 * 2 ^ 1023"
    by (rule mult_strict_right_mono[OF b p])
  then show ?thesis by (simp only: float_max_def power_Suc)
qed

lemma float_max_ge_1000: "1000 \<le> float_max"
proof -
  have "(1000::real) \<le> 2 ^ 10" by simp
  also have "(2::real) ^ 10 \<le> 2 ^ 1023" by (rule power_increasing) simp_all
  also have "\<dots> \<le> float_max" by (rule float_max_ge)
  finally show ?thesis .
qed

lemma float_max_pos: "0 < float_max"
  using float_max_ge_1000 by simp

lemma float_tiny_pos: "0 < float_tiny"
  unfolding float_tiny_def by (rule divide_pos_pos) simp_all

lemma float_tiny_less:
  assumes "0 < x" "x < 2 ^ 1075"
  shows "float_tiny < 1 / x"
  unfolding float_tiny_def
  by (rule divide_strict_left_mono[OF assms(2)]) (use assms(1) in simp_all)

lemma float_tiny_lt_inverse: "0 < x \<Longrightarrow> x \<le> float_max \<Longrightarrow> float_tiny < 1 / x"
proof (rule float_tiny_less)
  assume x: "0 < x" "x \<le> float_max"
  show "0 < x" by (rule x(1))
  have "float_max < 2 ^ Suc 1023" by (rule float_max_lt)
  also have "(2::real) ^ Suc 1023 \<le> 2 ^ 1075" by (rule power_increasing) simp_all
  finally show "x < 2 ^ 1075" using x(2) by simp
qed

lemma float_tiny_lt_1: "float_tiny < 1 / 1000"
  using float_tiny_lt_inverse[of 1000] float_max_ge_1000 by simp

lemma f_add_in_range:
  "- float_max \<le> a + b \<Longrightarrow> a + b \<le> float_max \<Longrightarrow> f_add (Fin a) (Fin b) = Fin (a + b)"
  by (simp add: f_add_def)

lemma f_add_small: "\<bar>a + b\<bar> \<le> 1000 \<Longrightarrow> f_add (Fin a) (Fin b) = Fin (a + b)"
  using float_max_ge_1000 by (intro f_add_in_range) linarith+

lemma true_divide_in_range:
  assumes "b \<noteq> 0" "float_tiny < \<bar>a / b\<bar>" "\<bar>a / b\<bar> \<le> float_max"
  shows "true_divide (Fin a) (Fin b) = Fin (a / b)"
proof -
  have "\<not> float_max < a / b" "\<not> a / b < - float_max" "\<not> \<bar>a / b\<bar> \<le> float_tiny"
    using assms(2,3) by linarith+
  then show ?thesis using assms(1) by (simp add: true_divide_def)
qed

lemma true_divide_small:
  "b \<noteq> 0 \<Longrightarrow> 1 / 1000 \<le> \<bar>a / b\<bar> \<Longrightarrow> \<bar>a / b\<bar> \<le> 1000 \<Longrightarrow>
     true_divide (Fin a) (Fin b) = Fin (a / b)"
  using float_max_ge_1000 float_tiny_lt_1 by (intro true_divide_in_range) linarith+

lemma true_divide_zero: "b \<noteq> 0 \<Longrightarrow> true_divide (Fin 0) (Fin b) = Fin 0"
  using float_max_pos float_tiny_pos by (simp add: true_divide_def)

lemma true_divide_zero_zero: "true_divide (Fin 0) (Fin 0) = NaN"
  by (simp add: true_divide_def)

lemma py_pow_zero:
  assumes "e = PosInf \<or> (\<exists>x. e = Fin x \<and> 0 < x)"
  shows "py_pow 0 e = Inr (Fin 0)"
  using assms float_max_pos by (auto simp: py_pow_def)

lemma py_pow_in_range:
  assumes n: "real n \<le> float_max" and x: "0 < x" and r: "real n powr x \<le> float_max"
  shows "py_pow n (Fin x) = Inr (Fin (real n powr x))"
proof (cases "n = 0")
  case True
  then show ?thesis using x float_max_pos by (simp add: py_pow_def)
next
  case False
  then have "1 \<le> real n" by simp
  then have "1 \<le> real n powr x" using x by (intro ge_one_powr_ge_zero) simp_all
  moreover have "float_tiny < 1" using float_tiny_lt_1 by simp
  ultimately have "\<not> real n powr x \<le> float_tiny" by linarith
  then show ?thesis using False n x r by (simp add: py_pow_def)
qed

lemma py_pow_one: "real n \<le> 1000 \<Longrightarrow> py_pow n (Fin 1) = Inr (Fin (real n))"
  using py_pow_in_range[of n 1] float_max_ge_1000 by simp

lemma py_pow_overflow:
  assumes "real n \<le> float_max" "x \<noteq> 0" "n \<noteq> 0" "float_max < real n powr x"
  shows "py_pow n (Fin x) = Inl OverflowError"
  using assms by (simp add: py_pow_def)

lemma fold_f_add_Fin:
  assumes "\<forall>x\<in>set xs. 0 \<le> x" "0 \<le> a" "a + sum_list xs \<le> float_max"
  shows "fold (\<lambda>x acc. f_add acc x) (map Fin xs) (Fin a) = Fin (a + sum_list xs)"
  using assms
proof (induction xs arbitrary: a)
  case Nil
  then show ?case by simp
next
  case (Cons x xs)
  have x: "0 \<le> x" and xs: "\<forall>y\<in>set xs. 0 \<le> y" using Cons.prems(1) by simp_all
  have s: "0 \<le> sum_list xs" using xs by (intro sum_list_nonneg) simp
  have "- float_max \<le> a + x" using x Cons.prems(2) float_max_pos by linarith
  moreover have "a + x \<le> float_max" using s Cons.prems(3) by simp
  ultimately have f: "f_add (Fin a) (Fin x) = Fin (a + x)" by (rule f_add_in_range)
  have "fold (\<lambda>x acc. f_add acc x) (map Fin xs) (Fin (a + x)) = Fin (a + x + sum_list xs)"
    using xs x Cons.prems(2,3) by (intro Cons.IH) simp_all
  then show ?case by (simp add: f add.assoc)
qed

lemma np_sum_square:
  fixes q :: "real list list"
  assumes sq: "square n q"
    and nonneg: "\<And>i j. i < n \<Longrightarrow> j < n \<Longrightarrow> 0 \<le> q ! i ! j"
    and le: "(\<Sum>i<n. \<Sum>j<n. q ! i ! j) \<le> float_max"
  shows "np_sum (map (map Fin) q) = Fin (\<Sum>i<n. \<Sum>j<n. q ! i ! j)"
proof -
  have c: "concat (map (map Fin) q) = map Fin (concat q)"
    by (simp add: map_concat)
  have pos: "\<forall>x\<in>set (concat q). 0 \<le> x"
    unfolding set_concat_square[OF sq] using nonneg by auto
  have "fold (\<lambda>x acc. f_add acc x) (map Fin (concat q)) (Fin 0) = Fin (0 + sum_list (concat q))"
    using pos le by (intro fold_f_add_Fin) (simp_all add: sum_list_square[OF sq])
  then show ?thesis by (simp add: np_sum_def c sum_list_square[OF sq])
qed

lemma sum_over_board:
  fixes g :: "action \<Rightarrow> real"
  assumes "\<forall>a\<in>set acts. fst a < n \<and> snd a < n"
  shows "(\<Sum>i<n. \<Sum>j<n. if (i, j) \<in> set acts then g (i, j) else 0) = (\<Sum>a\<in>set acts. g a)"
proof -
  let ?w = "\<lambda>a. if a \<in> set acts then g a else 0"
  have "(\<Sum>i<n. \<Sum>j<n. ?w (i, j)) = (\<Sum>a\<in>{..<n} \<times> {..<n}. ?w a)"
    by (simp add: sum.cartesian_product)
  also have "\<dots> = (\<Sum>a\<in>set acts. ?w a)"
  proof (rule sum.mono_neutral_right)
    show "finite ({..<n} \<times> {..<n})" by simp
    show "set acts \<subseteq> {..<n} \<times> {..<n}" using assms by auto
    show "\<forall>a\<in>{..<n} \<times> {..<n} - set acts. ?w a = 0" by simp
  qed
  also have "\<dots> = (\<Sum>a\<in>set acts. g a)"
    by (rule sum.cong) simp_all
  finally show ?thesis .
qed

section \<open>The policy derived from the visit counts\<close>

lemma policy_greedy:
  assumes n: "self_board_size self = n"
    and acts: "mcts_get_state_actions M self state = acts"
    and cnt: "mcts_N M self state = cnt"
    and rng: "\<forall>a\<in>set acts. fst a < n \<and> snd a < n"
    and pos: "\<exists>a\<in>set acts. 0 < cnt a"
  shows "\<exists>bests. bests \<noteq> [] \<and> distinct bests \<and>
           set bests = {a \<in> set acts. \<forall>a'\<in>set acts. cnt a' \<le> cnt a} \<and>
           (\<forall>r. \<exists>p. get_policy_action_probabilities M self state 0 r = Inr p \<and> square n p \<and>
               (\<forall>i<n. \<forall>j<n. p ! i ! j =
                   Fin (if (i, j) = bests ! (r mod length bests) then 1 else 0)))"
proof -
  from pos obtain a0 where a0: "a0 \<in> set acts" "0 < cnt a0" by blast
  have npos: "0 < n" using rng a0(1) by fastforce
  obtain p1 where p1: "assign_each (\<lambda>a. Inr (real (cnt a))) acts (zeros n) = Inr p1" "square n p1"
    and e1: "\<forall>i<n. \<forall>j<n. p1 ! i ! j = (if (i, j) \<in> set acts then real (cnt (i, j)) else zeros n ! i ! j)"
    using assign_each_ok[of n "zeros n" acts "\<lambda>a. Inr (real (cnt a))" "\<lambda>a. real (cnt a)", OF square_zeros] rng
    by auto
  have e1': "p1 ! i ! j = (if (i, j) \<in> set acts then real (cnt (i, j)) else 0)"
    if "i < n" "j < n" for i j
    using e1 that by (simp add: zeros_nth)
  obtain m where m: "amax p1 = Inr m" "\<exists>i<n. \<exists>j<n. p1 ! i ! j = m" "\<forall>i<n. \<forall>j<n. p1 ! i ! j \<le> m"
    using amax_square[OF p1(2) npos] by blast
  define bests where "bests = argwhere (\<lambda>x. x = m) p1"
  have sb: "set bests = {(i, j). i < n \<and> j < n \<and> p1 ! i ! j = m}"
    unfolding bests_def by (rule argwhere_square(1)[OF p1(2)])
  have db: "distinct bests"
    unfolding bests_def by (rule argwhere_square(2)[OF p1(2)])
  have mpos: "0 < m"
  proof -
    obtain i0 j0 where ij0: "a0 = (i0, j0)" by (cases a0)
    then have r0: "i0 < n" "j0 < n" using rng a0(1) by auto
    then have "p1 ! i0 ! j0 = real (cnt a0)" using e1'[OF r0] a0(1) ij0 by simp
    moreover have "p1 ! i0 ! j0 \<le> m" using m(3) r0 by simp
    ultimately show ?thesis using a0(2) by simp
  qed
  have chr: "set bests = {a \<in> set acts. \<forall>a'\<in>set acts. cnt a' \<le> cnt a}"
  proof (intro set_eqI iffI)
    fix a assume "a \<in> set bests"
    then obtain i j where a: "a = (i, j)" "i < n" "j < n" "p1 ! i ! j = m" using sb by auto
    have legal: "a \<in> set acts"
    proof (rule ccontr)
      assume "a \<notin> set acts"
      then have "p1 ! i ! j = 0" using e1'[OF a(2,3)] a(1) by simp
      then show False using a(4) mpos by simp
    qed
    then have va: "real (cnt a) = m" using e1'[OF a(2,3)] a(1,4) by simp
    have "\<forall>a'\<in>set acts. cnt a' \<le> cnt a"
    proof
      fix a' assume a': "a' \<in> set acts"
      obtain i' j' where ij': "a' = (i', j')" by (cases a')
      then have r': "i' < n" "j' < n" using rng a' by auto
      have "p1 ! i' ! j' = real (cnt a')" using e1'[OF r'] a' ij' by simp
      moreover have "p1 ! i' ! j' \<le> m" using m(3) r' by simp
      ultimately have "real (cnt a') \<le> real (cnt a)" using va by simp
      then show "cnt a' \<le> cnt a" by simp
    qed
    with legal show "a \<in> {a \<in> set acts. \<forall>a'\<in>set acts. cnt a' \<le> cnt a}" by simp
  next
    fix a assume "a \<in> {a \<in> set acts. \<forall>a'\<in>set acts. cnt a' \<le> cnt a}"
    then have la: "a \<in> set acts" and mx: "\<forall>a'\<in>set acts. cnt a' \<le> cnt a" by auto
    obtain i j where a: "a = (i, j)" by (cases a)
    then have ij: "i < n" "j < n" using rng la by auto
    have va: "p1 ! i ! j = real (cnt a)" using e1'[OF ij] la a by simp
    from m(2) obtain i' j' where m': "i' < n" "j' < n" "p1 ! i' ! j' = m" by blast
    have l': "(i', j') \<in> set acts"
    proof (rule ccontr)
      assume "(i', j') \<notin> set acts"
      then have "p1 ! i' ! j' = 0" using e1'[OF m'(1,2)] by simp
      then show False using m'(3) mpos by simp
    qed
    then have "m = real (cnt (i', j'))" using e1'[OF m'(1,2)] m'(3) by simp
    moreover have "cnt (i', j') \<le> cnt a" using mx l' by blast
    ultimately have "m \<le> p1 ! i ! j" using va by simp
    moreover have "p1 ! i ! j \<le> m" using m(3) ij by simp
    ultimately have "p1 ! i ! j = m" by simp
    then show "a \<in> set bests" using sb a ij by simp
  qed
  have ne: "bests \<noteq> []"
  proof -
    from m(2) obtain i' j' where "i' < n" "j' < n" "p1 ! i' ! j' = m" by blast
    then have "(i', j') \<in> set bests" using sb by simp
    then show ?thesis by auto
  qed
  have run: "\<exists>p. get_policy_action_probabilities M self state 0 r = Inr p \<and> square n p \<and>
               (\<forall>i<n. \<forall>j<n. p ! i ! j = Fin (if (i, j) = bests ! (r mod length bests) then 1 else 0))"
    for r
  proof -
    let ?b = "bests ! (r mod length bests)"
    have rc: "random_choice r (argwhere (\<lambda>x. x = m) p1) = Inr ?b" and bin: "?b \<in> set bests"
      using random_choice_nonempty[OF ne, of r] by (simp_all add: bests_def)
    obtain bi bj where b: "?b = (bi, bj)" by (cases ?b)
    have brng: "bi < n" "bj < n" using bin sb b by auto
    let ?q = "(zeros n)[bi := (zeros n ! bi)[bj := 1]]"
    have sq: "setitem (zeros n) ?b 1 = Inr ?q" "square n ?q"
      using setitem_square[OF square_zeros brng, of 1] b by auto
    have res: "get_policy_action_probabilities M self state 0 r = Inr (map (map Fin) ?q)"
      by (simp add: get_policy_action_probabilities_def n acts cnt p1(1) m(1) rc sq(1))
    have ent: "map (map Fin) ?q ! i ! j = Fin (if (i, j) = ?b then 1 else 0)" if "i < n" "j < n" for i j
      using map_map_nth[OF sq(2) that, of Fin] update_nth[OF square_zeros that, of bi bj 1] that b
      by (simp add: zeros_nth)
    show ?thesis
      using res square_map[OF sq(2), of Fin] ent by auto
  qed
  show ?thesis
    using ne db chr run by blast
qed

lemma policy_proportional:
  assumes n: "self_board_size self = n"
    and acts: "mcts_get_state_actions M self state = acts"
    and cnt: "mcts_N M self state = cnt"
    and rng: "\<forall>a\<in>set acts. fst a < n \<and> snd a < n"
    and pos: "\<exists>a\<in>set acts. 0 < cnt a"
    and T: "0 < T" "T < 2 ^ 1075" "1 / T \<le> float_max"
    and cmax: "\<forall>a\<in>set acts. real (cnt a) \<le> float_max"
    and smax: "(\<Sum>a\<in>set acts. real (cnt a) powr (1 / T)) \<le> float_max"
  shows "\<exists>p. get_policy_action_probabilities M self state T r = Inr p \<and> square n p \<and>
           (\<forall>i<n. \<forall>j<n. p ! i ! j =
               Fin ((if (i, j) \<in> set acts then real (cnt (i, j)) powr (1 / T) else 0) /
                    (\<Sum>a\<in>set acts. real (cnt a) powr (1 / T)))) \<and>
           (\<Sum>i<n. \<Sum>j<n. (if (i, j) \<in> set acts then real (cnt (i, j)) powr (1 / T) else 0) /
                    (\<Sum>a\<in>set acts. real (cnt a) powr (1 / T))) = 1"
proof -
  let ?g = "\<lambda>a. real (cnt a) powr (1 / T)"
  let ?S = "\<Sum>a\<in>set acts. ?g a"
  let ?w = "\<lambda>a. if a \<in> set acts then ?g a else 0"
  let ?e = "true_divide (Fin 1) (Fin T)"
  have xpos: "0 < 1 / T" using T(1) by simp
  have ex: "?e = Fin (1 / T)"
    using T(1,3) float_tiny_less[OF T(1,2)] xpos by (intro true_divide_in_range) simp_all
  have gle: "?g a \<le> ?S" if "a \<in> set acts" for a
    using that by (intro member_le_sum) simp_all
  have pw: "py_pow (cnt a) ?e = Inr (Fin (?g a))" if "a \<in> set acts" for a
    unfolding ex using cmax that xpos gle[OF that] smax by (intro py_pow_in_range) auto
  have sqz: "square n (map (map Fin) (zeros n))"
    by (rule square_map[OF square_zeros])
  obtain p1 where p1: "assign_each (\<lambda>a. py_pow (cnt a) ?e) acts (map (map Fin) (zeros n)) = Inr p1"
      "square n p1"
    and e1: "\<forall>i<n. \<forall>j<n. p1 ! i ! j =
               (if (i, j) \<in> set acts then Fin (?g (i, j)) else map (map Fin) (zeros n) ! i ! j)"
    using assign_each_ok[of n "map (map Fin) (zeros n)" acts "\<lambda>a. py_pow (cnt a) ?e"
        "\<lambda>a. Fin (?g a)", OF sqz] rng pw
    by auto
  have e1': "p1 ! i ! j = Fin (?w (i, j))" if "i < n" "j < n" for i j
    using e1 that map_map_nth[OF square_zeros that, of Fin] by (simp add: zeros_nth)
  have p1t: "p1 = map (map Fin) (table n ?w)"
  proof (rule matrix_eqI[OF p1(2) square_map[OF square_table]])
    fix i j assume ij: "i < n" "j < n"
    show "p1 ! i ! j = map (map Fin) (table n ?w) ! i ! j"
      using e1'[OF ij] map_map_nth[OF square_table ij, of Fin ?w] table_nth[OF ij, of ?w]
      by simp
  qed
  have board: "(\<Sum>i<n. \<Sum>j<n. ?w (i, j)) = ?S"
    by (rule sum_over_board[OF rng])
  have tsum: "(\<Sum>i<n. \<Sum>j<n. table n ?w ! i ! j) = ?S"
  proof -
    have "(\<Sum>i<n. \<Sum>j<n. table n ?w ! i ! j) = (\<Sum>i<n. \<Sum>j<n. ?w (i, j))"
      by (intro sum.cong refl) (simp add: table_nth)
    then show ?thesis using board by simp
  qed
  have total: "np_sum p1 = Fin ?S"
  proof -
    have "np_sum (map (map Fin) (table n ?w)) = Fin (\<Sum>i<n. \<Sum>j<n. table n ?w ! i ! j)"
    proof (rule np_sum_square[OF square_table])
      fix i j assume "i < n" "j < n"
      then show "0 \<le> table n ?w ! i ! j" by (simp add: table_nth)
    next
      show "(\<Sum>i<n. \<Sum>j<n. table n ?w ! i ! j) \<le> float_max"
        using smax by (simp only: tsum)
    qed
    then show ?thesis by (simp only: p1t tsum)
  qed
  from pos obtain a0 where a0: "a0 \<in> set acts" "0 < cnt a0" by blast
  have Sge: "1 \<le> ?S"
  proof -
    have "1 \<le> real (cnt a0)" using a0(2) by simp
    then have "1 \<le> ?g a0" using xpos by (intro ge_one_powr_ge_zero) simp_all
    then show ?thesis using gle[OF a0(1)] by linarith
  qed
  then have Spos: "0 < ?S" by linarith
  have dv: "true_divide (Fin (?w a)) (Fin ?S) = Fin (?w a / ?S)" for a
  proof (cases "a \<in> set acts \<and> cnt a \<noteq> 0")
    case False
    then have "?w a = 0" by auto
    then show ?thesis using Spos true_divide_zero[of ?S] by simp
  next
    case True
    then have "1 \<le> real (cnt a)" by simp
    then have g1: "1 \<le> ?g a" using xpos by (intro ge_one_powr_ge_zero) simp_all
    have wa: "?w a = ?g a" using True by simp
    have le1: "?g a / ?S \<le> 1" using gle[of a] True Spos by simp
    have "1 / ?S \<le> ?g a / ?S" using g1 Spos by (intro divide_right_mono) simp_all
    moreover have "float_tiny < 1 / ?S" using Spos smax by (rule float_tiny_lt_inverse)
    ultimately have lo: "float_tiny < ?g a / ?S" by linarith
    have q: "0 < ?g a / ?S" using lo float_tiny_pos by linarith
    have "true_divide (Fin (?g a)) (Fin ?S) = Fin (?g a / ?S)"
    proof (rule true_divide_in_range)
      show "?S \<noteq> 0" using Spos by simp
      show "float_tiny < \<bar>?g a / ?S\<bar>" unfolding abs_of_pos[OF q] by (rule lo)
      show "\<bar>?g a / ?S\<bar> \<le> float_max"
        unfolding abs_of_pos[OF q] using le1 float_max_ge_1000 by linarith
    qed
    then show ?thesis by (simp only: wa)
  qed
  let ?p = "map (map (\<lambda>x. true_divide x (np_sum p1))) p1"
  have res: "get_policy_action_probabilities M self state T r = Inr ?p"
    using T(1) by (simp add: get_policy_action_probabilities_def n acts cnt p1(1))
  have ent: "?p ! i ! j = Fin (?w (i, j) / ?S)" if "i < n" "j < n" for i j
  proof -
    have "?p ! i ! j = true_divide (p1 ! i ! j) (np_sum p1)"
      by (rule map_map_nth[OF p1(2) that])
    also have "\<dots> = true_divide (Fin (?w (i, j))) (Fin ?S)"
      by (simp only: e1'[OF that] total)
    also have "\<dots> = Fin (?w (i, j) / ?S)" by (rule dv)
    finally show ?thesis .
  qed
  have one: "(\<Sum>i<n. \<Sum>j<n. ?w (i, j) / ?S) = 1"
  proof -
    have "(\<Sum>i<n. \<Sum>j<n. ?w (i, j) / ?S) = (\<Sum>i<n. \<Sum>j<n. ?w (i, j)) / ?S"
      by (simp only: sum_divide_distrib)
    also have "\<dots> = ?S / ?S" by (simp only: board)
    also have "\<dots> = 1" using Spos by simp
    finally show ?thesis .
  qed
  show ?thesis
    using res square_map[OF p1(2)] ent one by auto
qed

lemma policy_unvisited_greedy:
  assumes n: "self_board_size self = n"
    and acts: "mcts_get_state_actions M self state = acts"
    and cnt: "mcts_N M self state = cnt"
    and npos: "0 < n"
    and rng: "\<forall>a\<in>set acts. fst a < n \<and> snd a < n"
    and zero: "\<forall>a\<in>set acts. cnt a = 0"
  shows "\<exists>i j. i < n \<and> j < n \<and> List.product [0..<n] [0..<n] ! (r mod (n * n)) = (i, j) \<and>
           get_policy_action_probabilities M self state 0 r =
             Inr (map (map Fin) ((zeros n)[i := (zeros n ! i)[j := 1]]))"
proof -
  obtain p1 where p1: "assign_each (\<lambda>a. Inr (real (cnt a))) acts (zeros n) = Inr p1" "square n p1"
    and e1: "\<forall>i<n. \<forall>j<n. p1 ! i ! j = (if (i, j) \<in> set acts then real (cnt (i, j)) else zeros n ! i ! j)"
    using assign_each_ok[of n "zeros n" acts "\<lambda>a. Inr (real (cnt a))" "\<lambda>a. real (cnt a)", OF square_zeros] rng
    by auto
  have "p1 ! i ! j = 0" if "i < n" "j < n" for i j
    using e1 that zero by (auto simp: zeros_nth)
  then have p1z: "p1 = zeros n" by (rule square_all_zero[OF p1(2)])
  obtain m where m: "amax (zeros n) = Inr m" "\<exists>i<n. \<exists>j<n. zeros n ! i ! j = m"
    using amax_square[OF square_zeros npos] by blast
  then have m0: "m = 0" by (auto simp: zeros_nth)
  let ?cells = "List.product [0..<n] [0..<n]"
  have aw: "argwhere (\<lambda>x. x = 0) (zeros n) = ?cells"
  proof -
    have "\<forall>c\<in>set ?cells. (\<lambda>(row, col). zeros n ! row ! col = 0) c"
      by (auto simp: zeros_nth)
    then have "filter (\<lambda>(row, col). zeros n ! row ! col = 0) ?cells = ?cells"
      by (rule filter_True)
    then show ?thesis
      by (simp add: argwhere_def indices_def square_ncols[OF square_zeros]) (simp add: zeros_def)
  qed
  have len: "length ?cells = n * n" by (simp add: length_product)
  have ne: "?cells \<noteq> []" using npos len by (metis length_0_conv mult_is_0 not_less_zero)
  have rc: "random_choice r ?cells = Inr (?cells ! (r mod (n * n)))"
    and bin: "?cells ! (r mod (n * n)) \<in> set ?cells"
    using random_choice_nonempty[OF ne, of r] len by simp_all
  obtain bi bj where b: "?cells ! (r mod (n * n)) = (bi, bj)" by (cases "?cells ! (r mod (n * n))")
  have brng: "bi < n" "bj < n" using bin b by auto
  have sq: "setitem (zeros n) (bi, bj) 1 = Inr ((zeros n)[bi := (zeros n ! bi)[bj := 1]])"
    by (rule setitem_square(1)[OF square_zeros brng])
  have "get_policy_action_probabilities M self state 0 r =
          Inr (map (map Fin) ((zeros n)[bi := (zeros n ! bi)[bj := 1]]))"
    using p1(1) m(1)
    by (simp add: get_policy_action_probabilities_def n acts cnt p1z m0 aw rc b sq)
  with brng b show ?thesis by blast
qed

lemma policy_unvisited_proportional:
  assumes n: "self_board_size self = n"
    and acts: "mcts_get_state_actions M self state = acts"
    and cnt: "mcts_N M self state = cnt"
    and rng: "\<forall>a\<in>set acts. fst a < n \<and> snd a < n"
    and zero: "\<forall>a\<in>set acts. cnt a = 0"
    and T: "0 < T" "T < 2 ^ 1075"
  shows "get_policy_action_probabilities M self state T r = Inr (replicate n (replicate n NaN))"
proof -
  let ?e = "true_divide (Fin 1) (Fin T)"
  have xpos: "0 < 1 / T" using T(1) by simp
  have tiny: "\<not> \<bar>1 / T\<bar> \<le> float_tiny"
    using float_tiny_less[OF T] xpos by simp
  have low: "\<not> 1 / T < - float_max"
    using xpos float_max_pos by linarith
  have ex: "?e = PosInf \<or> (\<exists>x. ?e = Fin x \<and> 0 < x)"
    using T(1) tiny low xpos by (simp add: true_divide_def)
  have pw: "py_pow (cnt a) ?e = Inr (Fin 0)" if "a \<in> set acts" for a
    using zero that py_pow_zero[OF ex] by simp
  have sqz: "square n (map (map Fin) (zeros n))"
    by (rule square_map[OF square_zeros])
  obtain p1 where p1: "assign_each (\<lambda>a. py_pow (cnt a) ?e) acts (map (map Fin) (zeros n)) = Inr p1"
      "square n p1"
    and e1: "\<forall>i<n. \<forall>j<n. p1 ! i ! j =
               (if (i, j) \<in> set acts then Fin 0 else map (map Fin) (zeros n) ! i ! j)"
    using assign_each_ok[of n "map (map Fin) (zeros n)" acts "\<lambda>a. py_pow (cnt a) ?e"
        "\<lambda>a. Fin 0", OF sqz] rng pw
    by auto
  have p1z: "p1 = map (map Fin) (zeros n)"
  proof (rule matrix_eqI[OF p1(2) sqz])
    fix i j assume ij: "i < n" "j < n"
    show "p1 ! i ! j = map (map Fin) (zeros n) ! i ! j"
      using e1 ij map_map_nth[OF square_zeros ij, of Fin] by (simp add: zeros_nth)
  qed
  have s0: "np_sum (map (map Fin) (zeros n)) = Fin 0"
  proof -
    have "np_sum (map (map Fin) (zeros n)) = Fin (\<Sum>i<n. \<Sum>j<n. zeros n ! i ! j)"
      using float_max_pos by (intro np_sum_square[OF square_zeros]) (simp_all add: zeros_nth)
    then show ?thesis by (simp add: zeros_nth)
  qed
  show ?thesis
    using T(1) p1(1)
    by (simp add: get_policy_action_probabilities_def n acts cnt p1z s0)
      (simp add: zeros_def true_divide_zero_zero)
qed

lemma policy_unvisited_returns:
  assumes n: "self_board_size self = n"
    and acts: "mcts_get_state_actions M self state = acts"
    and cnt: "mcts_N M self state = cnt"
    and rng: "\<forall>a\<in>set acts. fst a < n \<and> snd a < n"
    and zero: "\<forall>a\<in>set acts. cnt a = 0"
    and T: "0 < T"
  shows "\<exists>p. get_policy_action_probabilities M self state T r = Inr p"
proof -
  let ?e = "true_divide (Fin 1) (Fin T)"
  have xpos: "0 < 1 / T" using T by simp
  have low: "\<not> 1 / T < - float_max"
    using xpos float_max_pos by linarith
  have ex: "?e = PosInf \<or> ?e = Fin 0 \<or> (\<exists>x. ?e = Fin x \<and> 0 < x)"
    using T low xpos by (simp add: true_divide_def)
  have "py_pow 0 (Fin 0) = Inr (Fin 1)"
    using float_max_pos by (simp add: py_pow_def)
  with ex obtain v where v: "py_pow 0 ?e = Inr v"
    using py_pow_zero[of ?e] by auto
  have pw: "py_pow (cnt a) ?e = Inr v" if "a \<in> set acts" for a
    using zero that v by simp
  have sqz: "square n (map (map Fin) (zeros n))"
    by (rule square_map[OF square_zeros])
  obtain p1 where p1: "assign_each (\<lambda>a. py_pow (cnt a) ?e) acts (map (map Fin) (zeros n)) = Inr p1"
    using assign_each_ok[of n "map (map Fin) (zeros n)" acts "\<lambda>a. py_pow (cnt a) ?e"
        "\<lambda>a. v", OF sqz] rng pw
    by auto
  show ?thesis
    using T by (simp add: get_policy_action_probabilities_def n acts cnt p1)
qed

text \<open>
  A search tree whose legal actions and visit counts are given, to run the policy on concrete
  statistics: \<open>simulate\<close> leaves it unchanged.
\<close>

definition tree_with :: "action list \<Rightarrow> (action \<Rightarrow> nat) \<Rightarrow> (unit, unit, unit) MCTS" where
  "tree_with acts cnt =
     \<lparr>mcts_init = (\<lambda>degree. ()), mcts_simulate = (\<lambda>self state. self),
      mcts_N = (\<lambda>self state. cnt), mcts_get_state_actions = (\<lambda>self state. acts)\<rparr>"

definition visited_actions :: "action list" where
  "visited_actions = [(0, 0), (0, 1)]"

definition visited_counts :: "action \<Rightarrow> nat" where
  "visited_counts a = (if a = (0, 0) then 3 else 1)"

definition visited_tree :: "(unit, unit, unit) MCTS" where
  "visited_tree = tree_with visited_actions visited_counts"

text \<open>
  C5 (as the code behaves). On a state with a legal action of positive visit count (all
  legal actions on the board): at temperature 0 the result is the one-hot array of
  \<open>bests ! (r mod length bests)\<close>, where \<open>bests\<close> lists, without repetition, exactly the
  legal actions of maximal visit count and \<open>r\<close> is the generator's draw, so a uniform draw
  gives a uniform choice among the maximisers. At a temperature \<open>T > 0\<close> the powers are
  floats: when \<open>1 / T\<close> is neither rounded to zero nor infinite (\<open>T\<close> below \<open>2 ^ 1075\<close> and
  \<open>1 / T\<close> at most \<open>float_max\<close>) and neither a visit count nor the sum of the powers
  \<open>N(a) ** (1 / T)\<close> over the legal actions exceeds \<open>float_max\<close>, the entry of a legal
  action \<open>a\<close> is \<open>N(a) ** (1 / T)\<close> divided by that sum, every other entry is 0, and the
  entries sum to 1. Rounding inside the float range is not modelled.
\<close>

theorem get_policy_action_probabilities_distribution:
  assumes "self_board_size self = n"
    and "mcts_get_state_actions M self state = acts"
    and "mcts_N M self state = cnt"
    and "\<forall>a\<in>set acts. fst a < n \<and> snd a < n"
    and "\<exists>a\<in>set acts. 0 < cnt a"
  shows "(\<exists>bests. bests \<noteq> [] \<and> distinct bests \<and>
            set bests = {a \<in> set acts. \<forall>a'\<in>set acts. cnt a' \<le> cnt a} \<and>
            (\<forall>r. \<exists>p. get_policy_action_probabilities M self state 0 r = Inr p \<and> square n p \<and>
               (\<forall>i<n. \<forall>j<n. p ! i ! j =
                   Fin (if (i, j) = bests ! (r mod length bests) then 1 else 0)))) \<and>
         (\<forall>T. 0 < T \<and> T < 2 ^ 1075 \<and> 1 / T \<le> float_max \<and>
              (\<forall>a\<in>set acts. real (cnt a) \<le> float_max) \<and>
              (\<Sum>a\<in>set acts. real (cnt a) powr (1 / T)) \<le> float_max \<longrightarrow>
            (\<forall>r. \<exists>p. get_policy_action_probabilities M self state T r = Inr p \<and> square n p \<and>
               (\<forall>i<n. \<forall>j<n. p ! i ! j =
                  Fin ((if (i, j) \<in> set acts then real (cnt (i, j)) powr (1 / T) else 0) /
                       (\<Sum>a\<in>set acts. real (cnt a) powr (1 / T)))) \<and>
               (\<Sum>i<n. \<Sum>j<n. (if (i, j) \<in> set acts then real (cnt (i, j)) powr (1 / T) else 0) /
                       (\<Sum>a\<in>set acts. real (cnt a) powr (1 / T))) = 1))"
proof (intro conjI allI impI)
  show "\<exists>bests. bests \<noteq> [] \<and> distinct bests \<and>
            set bests = {a \<in> set acts. \<forall>a'\<in>set acts. cnt a' \<le> cnt a} \<and>
            (\<forall>r. \<exists>p. get_policy_action_probabilities M self state 0 r = Inr p \<and> square n p \<and>
               (\<forall>i<n. \<forall>j<n. p ! i ! j =
                   Fin (if (i, j) = bests ! (r mod length bests) then 1 else 0)))"
    by (rule policy_greedy[OF assms])
next
  fix T r
  assume h: "0 < T \<and> T < 2 ^ 1075 \<and> 1 / T \<le> float_max \<and>
              (\<forall>a\<in>set acts. real (cnt a) \<le> float_max) \<and>
              (\<Sum>a\<in>set acts. real (cnt a) powr (1 / T)) \<le> float_max"
  then have T: "0 < T" "T < 2 ^ 1075" "1 / T \<le> float_max"
    and c: "\<forall>a\<in>set acts. real (cnt a) \<le> float_max"
    and s: "(\<Sum>a\<in>set acts. real (cnt a) powr (1 / T)) \<le> float_max"
    by blast+
  show "\<exists>p. get_policy_action_probabilities M self state T r = Inr p \<and> square n p \<and>
               (\<forall>i<n. \<forall>j<n. p ! i ! j =
                  Fin ((if (i, j) \<in> set acts then real (cnt (i, j)) powr (1 / T) else 0) /
                       (\<Sum>a\<in>set acts. real (cnt a) powr (1 / T)))) \<and>
               (\<Sum>i<n. \<Sum>j<n. (if (i, j) \<in> set acts then real (cnt (i, j)) powr (1 / T) else 0) /
                       (\<Sum>a\<in>set acts. real (cnt a) powr (1 / T))) = 1"
    by (rule policy_proportional[OF assms T c s])
qed

theorem get_policy_action_probabilities_distribution_witness:
  "(\<exists>bests. bests \<noteq> [] \<and> distinct bests \<and>
      set bests = {a \<in> set visited_actions. \<forall>a'\<in>set visited_actions. visited_counts a' \<le> visited_counts a} \<and>
      (\<forall>r. \<exists>p. get_policy_action_probabilities visited_tree (OthelloMCTS_init visited_tree 2 0 1) () 0 r = Inr p \<and>
         square 2 p \<and>
         (\<forall>i<2. \<forall>j<2. p ! i ! j = Fin (if (i, j) = bests ! (r mod length bests) then 1 else 0)))) \<and>
   (\<forall>r. \<exists>p. get_policy_action_probabilities visited_tree (OthelloMCTS_init visited_tree 2 0 1) () 1 r = Inr p \<and>
      square 2 p \<and>
      (\<forall>i<2. \<forall>j<2. p ! i ! j =
         Fin ((if (i, j) \<in> set visited_actions then real (visited_counts (i, j)) powr (1 / 1) else 0) /
              (\<Sum>a\<in>set visited_actions. real (visited_counts a) powr (1 / 1)))) \<and>
      (\<Sum>i<2. \<Sum>j<2. (if (i, j) \<in> set visited_actions then real (visited_counts (i, j)) powr (1 / 1) else 0) /
              (\<Sum>a\<in>set visited_actions. real (visited_counts a) powr (1 / 1))) = 1)"
proof -
  have 1: "self_board_size (OthelloMCTS_init visited_tree 2 0 1) = 2"
    by (simp add: OthelloMCTS_init_def)
  have 2: "mcts_get_state_actions visited_tree (OthelloMCTS_init visited_tree 2 0 1) () = visited_actions"
    by (simp add: visited_tree_def tree_with_def)
  have 3: "mcts_N visited_tree (OthelloMCTS_init visited_tree 2 0 1) () = visited_counts"
    by (simp add: visited_tree_def tree_with_def)
  have 4: "\<forall>a\<in>set visited_actions. fst a < 2 \<and> snd a < 2"
    by (simp add: visited_actions_def)
  have 5: "\<exists>a\<in>set visited_actions. 0 < visited_counts a"
    by (simp add: visited_actions_def visited_counts_def)
  have t: "(1::real) < 2 ^ 1075"
    by (rule one_less_power) simp_all
  have m: "1 / 1 \<le> float_max"
    using float_max_ge_1000 by simp
  have c: "\<forall>a\<in>set visited_actions. real (visited_counts a) \<le> float_max"
    using float_max_ge_1000 by (simp add: visited_actions_def visited_counts_def)
  have s: "(\<Sum>a\<in>set visited_actions. real (visited_counts a) powr (1 / 1)) \<le> float_max"
    using float_max_ge_1000 by (simp add: visited_actions_def visited_counts_def)
  have h: "0 < (1::real) \<and> (1::real) < 2 ^ 1075 \<and> 1 / 1 \<le> float_max \<and>
           (\<forall>a\<in>set visited_actions. real (visited_counts a) \<le> float_max) \<and>
           (\<Sum>a\<in>set visited_actions. real (visited_counts a) powr (1 / 1)) \<le> float_max"
    by (intro conjI zero_less_one t m c s)
  note w = get_policy_action_probabilities_distribution[OF 1 2 3 4 5]
  show ?thesis
    by (rule conjI[OF w[THEN conjunct1] w[THEN conjunct2, THEN spec, THEN mp, OF h]])
qed

text \<open>
  The claim as stated fails for some temperatures above 0. With one legal action of visit
  count 7 and temperature \<open>1 / 1024\<close>, the exponent is 1024 and \<open>7 ** 1024.0\<close> exceeds the
  float range: Python raises OverflowError and no distribution is returned.
\<close>

theorem get_policy_action_probabilities_overflow:
  "mcts_get_state_actions (tree_with [(0, 0)] (\<lambda>a. 7))
       (OthelloMCTS_init (tree_with [(0, 0)] (\<lambda>a. 7)) 2 0 1) () = [(0, 0)] \<and>
   mcts_N (tree_with [(0, 0)] (\<lambda>a. 7))
       (OthelloMCTS_init (tree_with [(0, 0)] (\<lambda>a. 7)) 2 0 1) () (0, 0) = 7 \<and>
   get_policy_action_probabilities (tree_with [(0, 0)] (\<lambda>a. 7))
       (OthelloMCTS_init (tree_with [(0, 0)] (\<lambda>a. 7)) 2 0 1) () (1 / 1024) 0 =
     Inl OverflowError"
proof -
  have "(1024::real) \<le> 2 ^ 10" by simp
  also have "(2::real) ^ 10 \<le> 2 ^ 1023" by (rule power_increasing) simp_all
  also have "\<dots> \<le> float_max" by (rule float_max_ge)
  finally have k: "1024 \<le> float_max" .
  have "true_divide (Fin 1) (Fin (1 / 1024)) = Fin (1 / (1 / 1024))"
    using k float_tiny_lt_1 by (intro true_divide_in_range) simp_all
  then have e: "true_divide (Fin 1) (Fin (1 / 1024)) = Fin 1024" by simp
  have "float_max < 2 ^ Suc 1023" by (rule float_max_lt)
  also have "(2::real) ^ Suc 1023 \<le> real 7 ^ Suc 1023"
    by (rule power_mono) simp_all
  also have "\<dots> = real 7 powr real (Suc 1023)"
    by (rule powr_realpow[symmetric]) simp
  finally have "float_max < real 7 powr real (Suc 1023)" .
  moreover have "real (Suc 1023) = 1024" by simp
  ultimately have big: "float_max < real 7 powr 1024" by (simp only:)
  have small: "real 7 \<le> float_max"
    using float_max_ge_1000 by simp
  have p: "py_pow 7 (Fin 1024) = Inl OverflowError"
    by (rule py_pow_overflow[OF small _ _ big]) simp_all
  show ?thesis
    using e p
    by (simp add: get_policy_action_probabilities_def tree_with_def OthelloMCTS_init_def)
qed

text \<open>
  C4 (as the code behaves). On a board of positive size, a state with no legal action, or
  whose legal actions (all on the board) have visit count 0, raises no error at temperature
  0 nor at a temperature above 0. At temperature 0 the result is the one-hot array of the
  cell that the draw \<open>r\<close> selects among all \<open>n * n\<close> cells in row-major order, legal or not.
  At a temperature \<open>T\<close> with \<open>0 < T < 2 ^ 1075\<close> it is the array of NaN that \<open>0 / 0\<close> gives.
  (From \<open>2 ^ 1075\<close> on, \<open>1 / T\<close> is rounded to \<open>0.0\<close> and \<open>0 ** 0.0\<close> is \<open>1.0\<close>; an array is
  returned then too.)
\<close>

theorem get_policy_action_probabilities_unvisited:
  assumes "self_board_size self = n"
    and "mcts_get_state_actions M self state = acts"
    and "mcts_N M self state = cnt"
    and "0 < n"
    and "\<forall>a\<in>set acts. fst a < n \<and> snd a < n"
    and "\<forall>a\<in>set acts. cnt a = 0"
  shows "(\<exists>i j. i < n \<and> j < n \<and> List.product [0..<n] [0..<n] ! (r mod (n * n)) = (i, j) \<and>
            get_policy_action_probabilities M self state 0 r =
              Inr (map (map Fin) ((zeros n)[i := (zeros n ! i)[j := 1]]))) \<and>
         (\<forall>T. 0 < T \<and> T < 2 ^ 1075 \<longrightarrow>
            get_policy_action_probabilities M self state T r = Inr (replicate n (replicate n NaN))) \<and>
         (\<forall>T>0. \<exists>p. get_policy_action_probabilities M self state T r = Inr p)"
  using policy_unvisited_greedy[OF assms] policy_unvisited_proportional[OF assms(1,2,3,5,6)]
    policy_unvisited_returns[OF assms(1,2,3,5,6)]
  by blast

theorem get_policy_action_probabilities_unvisited_witness:
  "(\<exists>i j. i < 2 \<and> j < 2 \<and> List.product [0..<2] [0..<2] ! (3 mod (2 * 2)) = (i, j) \<and>
      get_policy_action_probabilities (tree_with [(0, 1)] (\<lambda>a. 0))
          (OthelloMCTS_init (tree_with [(0, 1)] (\<lambda>a. 0)) 2 0 1) () 0 3 =
        Inr (map (map Fin) ((zeros 2)[i := (zeros 2 ! i)[j := 1]]))) \<and>
   get_policy_action_probabilities (tree_with [(0, 1)] (\<lambda>a. 0))
          (OthelloMCTS_init (tree_with [(0, 1)] (\<lambda>a. 0)) 2 0 1) () 1 3 =
        Inr (replicate 2 (replicate 2 NaN)) \<and>
   (\<exists>p. get_policy_action_probabilities (tree_with [(0, 1)] (\<lambda>a. 0))
          (OthelloMCTS_init (tree_with [(0, 1)] (\<lambda>a. 0)) 2 0 1) () (2 ^ 1075) 3 = Inr p)"
proof -
  let ?M = "tree_with [(0, 1)] (\<lambda>a. 0)"
  have 1: "self_board_size (OthelloMCTS_init ?M 2 0 1) = 2"
    by (simp add: OthelloMCTS_init_def)
  have 2: "mcts_get_state_actions ?M (OthelloMCTS_init ?M 2 0 1) () = [(0, 1)]"
    by (simp add: tree_with_def)
  have 3: "mcts_N ?M (OthelloMCTS_init ?M 2 0 1) () = (\<lambda>a. 0)"
    by (simp add: tree_with_def)
  have 4: "0 < (2::nat)" by simp
  have 5: "\<forall>a\<in>set [(0, 1::nat)]. fst a < (2::nat) \<and> snd a < 2"
    by simp
  have 6: "\<forall>a\<in>set [(0::nat, 1::nat)]. (0::nat) = 0"
    by simp
  have t: "(1::real) < 2 ^ 1075"
    by (rule one_less_power) simp_all
  have h: "0 < (1::real) \<and> (1::real) < 2 ^ 1075"
    by (intro conjI zero_less_one t)
  have b: "(0::real) < 2 ^ 1075"
    by (rule zero_less_power) simp
  note w = get_policy_action_probabilities_unvisited[OF 1 2 3 4 5 6]
  show ?thesis
    by (intro conjI w[THEN conjunct1] w[THEN conjunct2, THEN conjunct1, THEN spec, THEN mp, OF h]
        w[THEN conjunct2, THEN conjunct2, THEN spec, THEN mp, OF b])
qed

text \<open>
  The claim as stated fails: with no legal action at temperature 0, and with an unvisited
  legal action at temperature 1, a value is returned.
\<close>

theorem get_policy_action_probabilities_no_error:
  "mcts_get_state_actions (tree_with [] (\<lambda>a. 0)) (OthelloMCTS_init (tree_with [] (\<lambda>a. 0)) 2 0 1) () = [] \<and>
   get_policy_action_probabilities (tree_with [] (\<lambda>a. 0))
       (OthelloMCTS_init (tree_with [] (\<lambda>a. 0)) 2 0 1) () 0 1 =
     Inr [[Fin 0, Fin 1], [Fin 0, Fin 0]] \<and>
   get_policy_action_probabilities (tree_with [(0, 1)] (\<lambda>a. 0))
       (OthelloMCTS_init (tree_with [(0, 1)] (\<lambda>a. 0)) 2 0 1) () 1 1 =
     Inr [[NaN, NaN], [NaN, NaN]]"
  by (simp add: get_policy_action_probabilities_def tree_with_def OthelloMCTS_init_def zeros_def
      amax_def argwhere_def indices_def ncols_def random_choice_def setitem_def np_sum_def
      true_divide_small true_divide_zero_zero f_add_small py_pow_one numeral_2_eq_2)

section \<open>The prediction cache\<close>

text \<open>
  \<open>OthelloMCTS._neural_network_predict(state)\<close>. \<open>hash_ndarray\<close> and the network's \<open>predict\<close>
  are parameters; \<open>predict\<close> may fail. The result is the value returned (or the exception),
  the instance after the call, and the states on which the network's \<open>predict\<close> was
  invoked during the call.
\<close>

definition neural_network_predict ::
  "('b \<Rightarrow> 'k) \<Rightarrow> (nat \<Rightarrow> 'b \<Rightarrow> error + prediction) \<Rightarrow> ('k, 'e) OthelloMCTS \<Rightarrow> 'b \<Rightarrow>
     (error + prediction) \<times> ('k, 'e) OthelloMCTS \<times> 'b list" where
  "neural_network_predict hash_ndarray predict self state =
     (let hash = hash_ndarray state in
      case self_predict_cache self hash of
        Some cached \<Rightarrow> (Inr cached, self, [])
      | None \<Rightarrow>
          (case predict (self_neural_network self) state of
             Inl e \<Rightarrow> (Inl e, self, [state])
           | Inr p \<Rightarrow>
               (Inr p, self\<lparr>self_predict_cache := (self_predict_cache self)(hash \<mapsto> p)\<rparr>, [state])))"

text \<open>\<open>get_state_value\<close> and \<open>get_state_actions_propabilities\<close>: the two hooks that predict.\<close>

definition get_state_value ::
  "('b \<Rightarrow> 'k) \<Rightarrow> (nat \<Rightarrow> 'b \<Rightarrow> error + prediction) \<Rightarrow> ('k, 'e) OthelloMCTS \<Rightarrow> 'b \<Rightarrow>
     (error + real) \<times> ('k, 'e) OthelloMCTS \<times> 'b list" where
  "get_state_value hash_ndarray predict self state =
     (case neural_network_predict hash_ndarray predict self state of
        (res, self', calls) \<Rightarrow> (map_sum id snd res, self', calls))"

definition get_state_actions_propabilities ::
  "('b \<Rightarrow> 'k) \<Rightarrow> (nat \<Rightarrow> 'b \<Rightarrow> error + prediction) \<Rightarrow> ('k, 'e) OthelloMCTS \<Rightarrow> 'b \<Rightarrow>
     (error + (action \<Rightarrow> real)) \<times> ('k, 'e) OthelloMCTS \<times> 'b list" where
  "get_state_actions_propabilities hash_ndarray predict self state =
     (case neural_network_predict hash_ndarray predict self state of
        (res, self', calls) \<Rightarrow> (map_sum id fst res, self', calls))"

text \<open>
  \<open>MCTS.simulate\<close> reaches the cache only through these two hooks, so the simulate calls
  of one instance amount to a sequence of hook calls. \<open>run_queries\<close> performs such a
  sequence, accumulating the states passed to the network; an exception ends it, as it
  propagates out of \<open>simulate\<close>.
\<close>

datatype 'b query = StateValue 'b | StateActionsProbabilities 'b

fun ask ::
  "('b \<Rightarrow> 'k) \<Rightarrow> (nat \<Rightarrow> 'b \<Rightarrow> error + prediction) \<Rightarrow> ('k, 'e) OthelloMCTS \<Rightarrow> 'b query \<Rightarrow>
     error option \<times> ('k, 'e) OthelloMCTS \<times> 'b list" where
  "ask h predict self (StateValue state) =
     (case get_state_value h predict self state of
        (res, self', calls) \<Rightarrow> ((case res of Inl e \<Rightarrow> Some e | Inr v \<Rightarrow> None), self', calls))"
| "ask h predict self (StateActionsProbabilities state) =
     (case get_state_actions_propabilities h predict self state of
        (res, self', calls) \<Rightarrow> ((case res of Inl e \<Rightarrow> Some e | Inr v \<Rightarrow> None), self', calls))"

fun run_queries ::
  "('b \<Rightarrow> 'k) \<Rightarrow> (nat \<Rightarrow> 'b \<Rightarrow> error + prediction) \<Rightarrow> 'b query list \<Rightarrow> ('k, 'e) OthelloMCTS \<Rightarrow>
     'b list \<Rightarrow> ('k, 'e) OthelloMCTS \<times> 'b list \<times> error option" where
  "run_queries h predict [] self calls = (self, calls, None)"
| "run_queries h predict (q # qs) self calls =
     (case ask h predict self q of
        (Some e, self', c) \<Rightarrow> (self', calls @ c, Some e)
      | (None, self', c) \<Rightarrow> run_queries h predict qs self' (calls @ c))"

lemma ask_cases:
  assumes "ask h predict self q = (err, self', c)"
  obtains (cached) state where "self_predict_cache self (h state) \<noteq> None" "self' = self" "c = []" "err = None"
  | (failed) state e where "self_predict_cache self (h state) = None" "self' = self" "c = [state]" "err = Some e"
  | (stored) state p where "self_predict_cache self (h state) = None"
      "self' = self\<lparr>self_predict_cache := (self_predict_cache self)(h state \<mapsto> p)\<rparr>" "c = [state]" "err = None"
proof (cases q)
  case (StateValue state)
  show ?thesis
  proof (cases "self_predict_cache self (h state)")
    case None
    show ?thesis
    proof (cases "predict (self_neural_network self) state")
      case (Inl e)
      with None StateValue assms have "self' = self" "c = [state]" "err = Some e"
        by (auto simp: get_state_value_def neural_network_predict_def)
      with None show ?thesis by (rule failed)
    next
      case (Inr p)
      with None StateValue assms
      have "self' = self\<lparr>self_predict_cache := (self_predict_cache self)(h state \<mapsto> p)\<rparr>"
        "c = [state]" "err = None"
        by (auto simp: get_state_value_def neural_network_predict_def)
      with None show ?thesis by (rule stored)
    qed
  next
    case (Some v)
    with StateValue assms have "self' = self" "c = []" "err = None"
      by (auto simp: get_state_value_def neural_network_predict_def)
    with Some show ?thesis by (intro cached[of state]) auto
  qed
next
  case (StateActionsProbabilities state)
  show ?thesis
  proof (cases "self_predict_cache self (h state)")
    case None
    show ?thesis
    proof (cases "predict (self_neural_network self) state")
      case (Inl e)
      with None StateActionsProbabilities assms have "self' = self" "c = [state]" "err = Some e"
        by (auto simp: get_state_actions_propabilities_def neural_network_predict_def)
      with None show ?thesis by (rule failed)
    next
      case (Inr p)
      with None StateActionsProbabilities assms
      have "self' = self\<lparr>self_predict_cache := (self_predict_cache self)(h state \<mapsto> p)\<rparr>"
        "c = [state]" "err = None"
        by (auto simp: get_state_actions_propabilities_def neural_network_predict_def)
      with None show ?thesis by (rule stored)
    qed
  next
    case (Some v)
    with StateActionsProbabilities assms have "self' = self" "c = []" "err = None"
      by (auto simp: get_state_actions_propabilities_def neural_network_predict_def)
    with Some show ?thesis by (intro cached[of state]) auto
  qed
qed

lemma ask_keeps_entries:
  assumes "ask h predict self q = (err, self', c)" "self_predict_cache self k = Some v"
  shows "self_predict_cache self' k = Some v"
  using assms(1)
proof (cases rule: ask_cases)
  case (stored state p)
  then have "k \<noteq> h state" using assms(2) by auto
  then show ?thesis using stored assms(2) by simp
qed (simp_all add: assms(2))

lemma ask_new_keys:
  assumes "ask h predict self q = (err, self', c)"
    and "h ` set calls \<subseteq> dom (self_predict_cache self)" "distinct (map h calls)"
  shows "distinct (map h (calls @ c))"
  using assms(1)
proof (cases rule: ask_cases)
  case (cached state)
  then show ?thesis using assms by simp
next
  case (failed state e)
  then show ?thesis using assms by (auto simp: dom_def)
next
  case (stored state p)
  then show ?thesis using assms by (auto simp: dom_def)
qed

lemma ask_keys_cached:
  assumes "ask h predict self q = (None, self', c)"
    and "h ` set calls \<subseteq> dom (self_predict_cache self)"
  shows "h ` set (calls @ c) \<subseteq> dom (self_predict_cache self')"
  using assms(1)
proof (cases rule: ask_cases)
  case (cached state)
  then show ?thesis using assms by simp
next
  case (failed state e)
  then show ?thesis by simp
next
  case (stored state p)
  then show ?thesis using assms by auto
qed

lemma run_queries_distinct:
  assumes "run_queries h predict qs self calls = (self', calls', err)"
    and "h ` set calls \<subseteq> dom (self_predict_cache self)" "distinct (map h calls)"
  shows "distinct (map h calls')"
  using assms
proof (induction qs arbitrary: self calls)
  case Nil
  then show ?case by simp
next
  case (Cons q qs)
  obtain e s1 c where a: "ask h predict self q = (e, s1, c)" by (cases "ask h predict self q")
  note n = ask_new_keys[OF a Cons.prems(2,3)]
  show ?case
  proof (cases e)
    case None
    then have r: "run_queries h predict qs s1 (calls @ c) = (self', calls', err)"
      using Cons.prems(1) a by simp
    have "h ` set (calls @ c) \<subseteq> dom (self_predict_cache s1)"
      using ask_keys_cached[OF a[unfolded None] Cons.prems(2)] .
    then show ?thesis using Cons.IH[OF r] n by blast
  next
    case (Some x)
    then have "calls' = calls @ c" using Cons.prems(1) a by simp
    then show ?thesis using n by simp
  qed
qed

lemma run_queries_keeps_entries:
  assumes "run_queries h predict qs self calls = (self', calls', err)"
    and "self_predict_cache self k = Some v"
  shows "self_predict_cache self' k = Some v"
  using assms
proof (induction qs arbitrary: self calls)
  case Nil
  then show ?case by simp
next
  case (Cons q qs)
  obtain e s1 c where a: "ask h predict self q = (e, s1, c)" by (cases "ask h predict self q")
  have k: "self_predict_cache s1 k = Some v" by (rule ask_keeps_entries[OF a Cons.prems(2)])
  show ?case
  proof (cases e)
    case None
    then have "run_queries h predict qs s1 (calls @ c) = (self', calls', err)"
      using Cons.prems(1) a by simp
    then show ?thesis using Cons.IH k by blast
  next
    case (Some x)
    then have "self' = s1" using Cons.prems(1) a by simp
    then show ?thesis using k by simp
  qed
qed

lemma run_queries_append:
  assumes "run_queries h predict qs1 self calls = (self1, calls1, None)"
  shows "run_queries h predict (qs1 @ qs2) self calls = run_queries h predict qs2 self1 calls1"
  using assms
proof (induction qs1 arbitrary: self calls)
  case Nil
  then show ?case by simp
next
  case (Cons q qs)
  obtain e s1 c where a: "ask h predict self q = (e, s1, c)" by (cases "ask h predict self q")
  show ?case
  proof (cases e)
    case None
    then show ?thesis using Cons a by simp
  next
    case (Some x)
    then show ?thesis using Cons.prems a by simp
  qed
qed

text \<open>A network that answers every state alike, and a tree over states numbered by naturals.\<close>

definition constant_net :: "nat \<Rightarrow> 'b \<Rightarrow> error + prediction" where
  "constant_net nn state = Inr (\<lambda>a. 0, 0)"

definition nat_tree :: "(nat, unit, nat) MCTS" where
  "nat_tree =
     \<lparr>mcts_init = (\<lambda>degree. ()), mcts_simulate = (\<lambda>self state. self),
      mcts_N = (\<lambda>self state a. 0), mcts_get_state_actions = (\<lambda>self state. [])\<rparr>"

text \<open>
  C6. Take a fresh \<open>OthelloMCTS\<close> and any sequence of hook calls, cut anywhere in two. Over
  the whole sequence the network's \<open>predict\<close> is invoked on states of pairwise different
  keys (at most once per key), and every cache entry present after the first part is
  present, unchanged, at the end.
\<close>

theorem predict_at_most_once_per_key:
  assumes "run_queries h predict qs1 (OthelloMCTS_init M n nn d) [] = (self1, calls1, None)"
    and "run_queries h predict (qs1 @ qs2) (OthelloMCTS_init M n nn d) [] = (self2, calls2, err)"
  shows "distinct (map h calls2) \<and>
         (\<forall>k v. self_predict_cache self1 k = Some v \<longrightarrow> self_predict_cache self2 k = Some v)"
proof -
  have "distinct (map h calls2)"
    using run_queries_distinct[OF assms(2)] by simp
  moreover have "run_queries h predict qs2 self1 calls1 = (self2, calls2, err)"
    using run_queries_append[OF assms(1), of qs2] assms(2) by simp
  then have "\<forall>k v. self_predict_cache self1 k = Some v \<longrightarrow> self_predict_cache self2 k = Some v"
    by (auto intro: run_queries_keeps_entries)
  ultimately show ?thesis by simp
qed

theorem predict_at_most_once_per_key_witness:
  "distinct (map id (fst (snd (run_queries id constant_net
       ([StateValue 1] @ [StateActionsProbabilities 1, StateValue 2])
       (OthelloMCTS_init nat_tree 2 0 1) [])))) \<and>
   self_predict_cache (fst (run_queries id constant_net
       ([StateValue 1] @ [StateActionsProbabilities 1, StateValue 2])
       (OthelloMCTS_init nat_tree 2 0 1) [])) 1 = Some (\<lambda>a. 0, 0)"
proof -
  let ?init = "OthelloMCTS_init nat_tree 2 0 1 :: (nat, unit) OthelloMCTS"
  let ?R1 = "run_queries id constant_net [StateValue (1::nat)] ?init []"
  let ?R2 = "run_queries id constant_net
       ([StateValue (1::nat)] @ [StateActionsProbabilities 1, StateValue 2]) ?init []"
  have "snd (snd ?R1) = None"
    by (simp add: get_state_value_def neural_network_predict_def OthelloMCTS_init_def constant_net_def)
  then have 1: "?R1 = (fst ?R1, fst (snd ?R1), None)"
    by (metis prod.collapse)
  have 2: "?R2 = (fst ?R2, fst (snd ?R2), snd (snd ?R2))"
    by simp
  have 3: "self_predict_cache (fst ?R1) 1 = Some (\<lambda>a. 0, 0)"
    by (simp add: get_state_value_def neural_network_predict_def OthelloMCTS_init_def constant_net_def)
  note w = predict_at_most_once_per_key[OF 1 2]
  show ?thesis
    using w 3 by blast
qed

section \<open>The game\<close>

datatype OthelloPlayer = BLACK | WHITE

text \<open>
  The rules engine (\<open>Othello.OthelloGame\<close>) is not among the sources; its operations are
  parameters. \<open>'g\<close> is a game object, \<open>'b\<close> a board array in the two-channel view. The first
  seven are the methods of a game object (\<open>game_init\<close> is the constructor, \<open>game_board\<close> is
  \<open>game.board(BoardView.TWO_CHANNELS)\<close>, \<open>game_play\<close> gives the object after the move); the
  winner is a player, or \<open>None\<close> when the game has no winner. The last three are static
  methods on boards: \<open>flip_board_squares\<close> updates its array in place, so its value here is
  the content of that array after the call.
\<close>

record ('g, 'b) OthelloGame =
  game_init :: "nat \<Rightarrow> 'g"
  game_has_finished :: "'g \<Rightarrow> bool"
  game_board :: "'g \<Rightarrow> 'b"
  game_current_player :: "'g \<Rightarrow> OthelloPlayer"
  game_get_valid_actions :: "'g \<Rightarrow> action list"
  game_play :: "'g \<Rightarrow> action \<Rightarrow> 'g"
  game_get_winning_player :: "'g \<Rightarrow> OthelloPlayer option \<times> nat"
  flip_board_squares :: "'b \<Rightarrow> OthelloPlayer \<Rightarrow> action \<Rightarrow> 'b"
  has_player_actions_on_board :: "'b \<Rightarrow> OthelloPlayer \<Rightarrow> bool"
  invert_board :: "'b \<Rightarrow> 'b"

text \<open>
  \<open>OthelloMCTS.get_next_state(state, action)\<close>: the move is made on a copy of \<open>state\<close>, and
  the copy is what is tested and returned.
\<close>

definition get_next_state :: "('g, 'b) OthelloGame \<Rightarrow> 'b \<Rightarrow> action \<Rightarrow> 'b" where
  "get_next_state G state action =
     (let board = flip_board_squares G state BLACK action in
      if has_player_actions_on_board G board WHITE then invert_board G board else board)"

text \<open>
  A small game to run the code on: a game object is the number of moves made and the player
  to move, it ends after \<open>len\<close> moves with the given winner, two squares are playable; a
  board is a number, a move adds one to it and inverting negates it.
\<close>

definition toy_game :: "nat \<Rightarrow> OthelloPlayer option \<Rightarrow> (nat \<times> OthelloPlayer, int) OthelloGame" where
  "toy_game len winner =
     \<lparr>game_init = (\<lambda>board_size. (0, BLACK)),
      game_has_finished = (\<lambda>g. len \<le> fst g),
      game_board = (\<lambda>g. int (fst g)),
      game_current_player = snd,
      game_get_valid_actions = (\<lambda>g. [(0, 0), (0, 1)]),
      game_play = (\<lambda>g a. (Suc (fst g), case snd g of BLACK \<Rightarrow> WHITE | WHITE \<Rightarrow> BLACK)),
      game_get_winning_player = (\<lambda>g. (winner, 1)),
      flip_board_squares = (\<lambda>b p a. b + 1),
      has_player_actions_on_board = (\<lambda>b p. \<bar>b\<bar> < int len),
      invert_board = (\<lambda>b. - b)\<rparr>"

text \<open>
  C7. \<open>get_next_state\<close> is a function of the state and the action. With \<open>board\<close> the position
  after BLACK's move, the result is \<open>board\<close> inverted when WHITE has an action on \<open>board\<close>,
  and \<open>board\<close> itself when WHITE has none.
\<close>

theorem get_next_state_perspective:
  "(has_player_actions_on_board G (flip_board_squares G state BLACK action) WHITE \<longrightarrow>
      get_next_state G state action = invert_board G (flip_board_squares G state BLACK action)) \<and>
   (\<not> has_player_actions_on_board G (flip_board_squares G state BLACK action) WHITE \<longrightarrow>
      get_next_state G state action = flip_board_squares G state BLACK action)"
  by (simp add: get_next_state_def)

theorem get_next_state_perspective_witness:
  "get_next_state (toy_game 2 None) 0 (0, 0) = - 1 \<and> get_next_state (toy_game 2 None) 1 (0, 0) = 2"
  using get_next_state_perspective[of "toy_game 2 None" 0 "(0, 0)"]
    get_next_state_perspective[of "toy_game 2 None" 1 "(0, 0)"]
  by (simp add: toy_game_def)

section \<open>Game loops\<close>

text \<open>
  \<open>while cond: body\<close>, where the body may raise. The loop need not end on an arbitrary
  game: \<open>None\<close> is the run that never returns.
\<close>

partial_function (option) while_loop ::
  "('s \<Rightarrow> bool) \<Rightarrow> ('s \<Rightarrow> error + 's) \<Rightarrow> 's \<Rightarrow> (error + 's) option" where
  "while_loop cond body s =
     (if cond s
      then (case body s of Inl e \<Rightarrow> Some (Inl e) | Inr s' \<Rightarrow> while_loop cond body s')
      else Some (Inr s))"

text \<open>
  The loop's variables after \<open>j\<close> runs of the body (the loop's test left aside), or the
  exception one of these runs raised.
\<close>

fun iterate_body :: "nat \<Rightarrow> ('s \<Rightarrow> error + 's) \<Rightarrow> 's \<Rightarrow> error + 's" where
  "iterate_body 0 body s = Inr s"
| "iterate_body (Suc j) body s = (case iterate_body j body s of Inl e \<Rightarrow> Inl e | Inr u \<Rightarrow> body u)"

lemma while_loop_rule:
  assumes run: "while_loop cond body s = Some (Inr t)"
    and step: "\<And>u u'. P u \<Longrightarrow> cond u \<Longrightarrow> body u = Inr u' \<Longrightarrow> P u'"
    and init: "P s"
  shows "P t \<and> \<not> cond t"
proof -
  have "while_loop c b s = Some r \<Longrightarrow> c = cond \<longrightarrow> b = body \<longrightarrow> r = Inr t \<longrightarrow> P s \<longrightarrow> P t \<and> \<not> cond t"
    for c b r
  proof (induction rule: while_loop.raw_induct[rotated 1, consumes 1])
    case (1 loop c b s r)
    show ?case
    proof (intro impI)
      assume c: "c = cond" and b: "b = body" and r: "r = Inr t" and Ps: "P s"
      show "P t \<and> \<not> cond t"
      proof (cases "cond s")
        case False
        then have "r = Inr s" using "1.hyps" c by simp
        then show ?thesis using r Ps False by simp
      next
        case True
        show ?thesis
        proof (cases "body s")
          case (Inl e)
          then have "r = Inl e" using "1.hyps" True c b by simp
          then show ?thesis using r by simp
        next
          case (Inr s')
          then have l: "loop c b s' = Some r" using "1.hyps" True c b by simp
          have "P s'" using step[OF Ps True Inr] .
          then show ?thesis using "1.IH"[OF l] c b r by simp
        qed
      qed
    qed
  qed
  then show ?thesis using run init by blast
qed

lemma iterate_body_prefix:
  "iterate_body k body s = Inr t \<Longrightarrow> j \<le> k \<Longrightarrow> \<exists>u. iterate_body j body s = Inr u"
proof (induction k arbitrary: t)
  case 0
  then show ?case by simp
next
  case (Suc k)
  show ?case
  proof (cases "j = Suc k")
    case True
    then show ?thesis using Suc.prems(1) by blast
  next
    case False
    then have jk: "j \<le> k" using Suc.prems(2) by simp
    from Suc.prems(1) obtain u where "iterate_body k body s = Inr u"
      by (auto split: sum.splits)
    from Suc.IH[OF this jk] show ?thesis .
  qed
qed

lemma while_loop_trace:
  assumes "while_loop cond body s = Some (Inr t)"
  shows "\<exists>k. iterate_body k body s = Inr t \<and> \<not> cond t \<and>
           (\<forall>j<k. \<exists>u. iterate_body j body s = Inr u \<and> cond u)"
proof -
  let ?P = "\<lambda>u. \<exists>k. iterate_body k body s = Inr u \<and>
                 (\<forall>j<k. \<exists>v. iterate_body j body s = Inr v \<and> cond v)"
  have "?P t \<and> \<not> cond t"
  proof (rule while_loop_rule[OF assms, of ?P])
    show "?P s" by (rule exI[of _ 0]) simp
  next
    fix u u' assume P: "?P u" and c: "cond u" and b: "body u = Inr u'"
    from P obtain k where k: "iterate_body k body s = Inr u"
      "\<forall>j<k. \<exists>v. iterate_body j body s = Inr v \<and> cond v"
      by blast
    have 1: "iterate_body (Suc k) body s = Inr u'" using k(1) b by simp
    have 2: "\<forall>j<Suc k. \<exists>v. iterate_body j body s = Inr v \<and> cond v"
    proof (intro allI impI)
      fix j assume "j < Suc k"
      then consider "j < k" | "j = k" by linarith
      then show "\<exists>v. iterate_body j body s = Inr v \<and> cond v"
      proof cases
        case 1
        then show ?thesis using k(2) by blast
      next
        case 2
        then show ?thesis using k(1) c by blast
      qed
    qed
    show "?P u'" using 1 2 by blast
  qed
  then show ?thesis by blast
qed

text \<open>\<open>max(xs, key=key)\<close>: the first element of greatest key; ValueError on an empty list.\<close>

definition py_max :: "('a \<Rightarrow> real) \<Rightarrow> 'a list \<Rightarrow> error + 'a" where
  "py_max key xs =
     (case xs of
        [] \<Rightarrow> Inl ValueError
      | x # rest \<Rightarrow> Inr (fold (\<lambda>y best. if key best < key y then y else best) rest x))"

text \<open>
  A Python object as far as identity goes: an \<open>OthelloPlayer\<close> member (or \<open>None\<close> for no
  player), or the \<open>NNetWrapper\<close> object at an address.
\<close>

datatype pyobj = Player "OthelloPlayer option" | Network nat

text \<open>
  \<open>duel_between_neural_networks(board_size, neural_network_1, neural_network_2)\<close>. The
  networks are objects (addresses); \<open>predict nn board\<close> is \<open>nn.predict(board)\<close>.
\<close>

definition duel_body ::
  "('g, 'b) OthelloGame \<Rightarrow> (nat \<Rightarrow> 'b \<Rightarrow> error + prediction) \<Rightarrow> nat \<Rightarrow> nat \<Rightarrow> 'g \<Rightarrow> error + 'g" where
  "duel_body G predict neural_network_1 neural_network_2 game =
     (let nn = (case game_current_player G game of
                  BLACK \<Rightarrow> neural_network_1 | WHITE \<Rightarrow> neural_network_2) in
      case predict nn (game_board G game) of
        Inl e \<Rightarrow> Inl e
      | Inr (action_probabilities, state_value) \<Rightarrow>
          (case py_max action_probabilities (game_get_valid_actions G game) of
             Inl e \<Rightarrow> Inl e
           | Inr best_action \<Rightarrow> Inr (game_play G game best_action)))"

definition duel_between_neural_networks ::
  "('g, 'b) OthelloGame \<Rightarrow> (nat \<Rightarrow> 'b \<Rightarrow> error + prediction) \<Rightarrow> nat \<Rightarrow> nat \<Rightarrow> nat \<Rightarrow>
     (error + pyobj) option" where
  "duel_between_neural_networks G predict board_size neural_network_1 neural_network_2 =
     (case while_loop (\<lambda>game. \<not> game_has_finished G game)
             (duel_body G predict neural_network_1 neural_network_2) (game_init G board_size) of
        None \<Rightarrow> None
      | Some (Inl e) \<Rightarrow> Some (Inl e)
      | Some (Inr game) \<Rightarrow> Some (Inr (Player (fst (game_get_winning_player G game)))))"

text \<open>
  The tally of \<open>training\<close>: \<open>new_net_victories\<close> is incremented for each duel result that
  \<open>is\<close> the new network.
\<close>

definition count_victories :: "pyobj list \<Rightarrow> nat \<Rightarrow> nat" where
  "count_victories winners neural_network =
     fold (\<lambda>winner new_net_victories.
             if winner = Network neural_network then new_net_victories + 1 else new_net_victories)
       winners 0"

lemma duel_returns_player:
  assumes "duel_between_neural_networks G predict board_size nn1 nn2 = Some (Inr winner)"
  shows "\<exists>game. winner = Player (fst (game_get_winning_player G game)) \<and> game_has_finished G game"
proof -
  let ?loop = "while_loop (\<lambda>game. \<not> game_has_finished G game) (duel_body G predict nn1 nn2)
                 (game_init G board_size)"
  from assms obtain game where g: "?loop = Some (Inr game)"
    and w: "winner = Player (fst (game_get_winning_player G game))"
    by (auto simp: duel_between_neural_networks_def split: option.splits sum.splits)
  have "True \<and> \<not> \<not> game_has_finished G game"
    by (rule while_loop_rule[OF g, of "\<lambda>g. True"]) simp_all
  with w show ?thesis by blast
qed

lemma count_victories_players:
  "\<forall>w\<in>set winners. \<exists>p. w = Player p \<Longrightarrow> count_victories winners nn = 0"
proof -
  have "\<forall>w\<in>set winners. \<exists>p. w = Player p \<Longrightarrow>
        fold (\<lambda>winner v. if winner = Network nn then v + 1 else v) winners k = k" for k :: nat
    by (induction winners arbitrary: k) auto
  then show "\<forall>w\<in>set winners. \<exists>p. w = Player p \<Longrightarrow> count_victories winners nn = 0"
    by (simp add: count_victories_def)
qed

section \<open>Self-play: execute_episode\<close>

text \<open>Comparisons of floats as numpy makes them: NaN is neither below nor equal to anything.\<close>

fun f_less :: "float64 \<Rightarrow> float64 \<Rightarrow> bool" where
  "f_less NaN y = False"
| "f_less x NaN = False"
| "f_less (Fin a) (Fin b) = (a < b)"
| "f_less PosInf y = False"
| "f_less x PosInf = True"
| "f_less x NegInf = False"
| "f_less NegInf y = True"

definition f_eq :: "float64 \<Rightarrow> float64 \<Rightarrow> bool" where
  "f_eq x y = (x \<noteq> NaN \<and> x = y)"

text \<open>\<open>policy.max()\<close> on floats: NaN if any entry is NaN; ValueError on an empty array.\<close>

definition fmax :: "float64 \<Rightarrow> float64 \<Rightarrow> float64" where
  "fmax x y = (if x = NaN \<or> y = NaN then NaN else if f_less x y then y else x)"

definition policy_max :: "float64 list list \<Rightarrow> error + float64" where
  "policy_max p = (case concat p of [] \<Rightarrow> Inl ValueError | x # xs \<Rightarrow> Inr (fold (\<lambda>y m. fmax m y) xs x))"

text \<open>\<open>xs[0]\<close>.\<close>

definition first_item :: "'a list \<Rightarrow> error + 'a" where
  "first_item xs = (case xs of [] \<Rightarrow> Inl IndexError | x # rest \<Rightarrow> Inr x)"

text \<open>
  The body of the loop of \<open>execute_episode\<close>, on the variables \<open>game\<close>, \<open>mcts\<close>, \<open>examples\<close>
  and the number \<open>k\<close> of policies derived so far (\<open>rnd k\<close> is the generator's draw for the
  next one).
\<close>

type_synonym ('g, 'k, 'e, 'b) episode_state =
  "'g \<times> ('k, 'e) OthelloMCTS \<times> ('b \<times> float64 list list \<times> OthelloPlayer) list \<times> nat"

definition episode_body ::
  "('g, 'b) OthelloGame \<Rightarrow> ('k, 'e, 'b) MCTS \<Rightarrow> nat \<Rightarrow> real \<Rightarrow> (nat \<Rightarrow> nat) \<Rightarrow>
     ('g, 'k, 'e, 'b) episode_state \<Rightarrow> error + ('g, 'k, 'e, 'b) episode_state" where
  "episode_body G M num_simulations policy_temperature rnd st =
     (case st of (game, mcts, examples, k) \<Rightarrow>
        let state = game_board G game;
            mcts' = ((\<lambda>m. mcts_simulate M m state) ^^ num_simulations) mcts
        in case get_policy_action_probabilities M mcts' state policy_temperature (rnd k) of
             Inl e \<Rightarrow> Inl e
           | Inr policy \<Rightarrow>
               let state' = (if game_current_player G game = WHITE
                             then invert_board G state else state);
                   examples' = examples @ [(state', policy, game_current_player G game)]
               in case policy_max policy of
                    Inl e \<Rightarrow> Inl e
                  | Inr m \<Rightarrow>
                      (case first_item (argwhere (\<lambda>x. f_eq x m) policy) of
                         Inl e \<Rightarrow> Inl e
                       | Inr action \<Rightarrow> Inr (game_play G game action, mcts', examples', Suc k)))"

text \<open>The loop of \<open>execute_episode\<close> with what precedes it: the final values of its variables.\<close>

definition episode_loop ::
  "('g, 'b) OthelloGame \<Rightarrow> ('k, 'e, 'b) MCTS \<Rightarrow> nat \<Rightarrow> nat \<Rightarrow> int \<Rightarrow> nat \<Rightarrow> real \<Rightarrow> (nat \<Rightarrow> nat) \<Rightarrow>
     (error + ('g, 'k, 'e, 'b) episode_state) option" where
  "episode_loop G M board_size neural_network degree_exploration num_simulations
       policy_temperature rnd =
     while_loop (\<lambda>(game, mcts, examples, k). \<not> game_has_finished G game)
       (episode_body G M num_simulations policy_temperature rnd)
       (game_init G board_size,
        OthelloMCTS_init M board_size neural_network degree_exploration, [], 0)"

text \<open>
  The variables of that loop after \<open>j\<close> move-decisions, and the state an example records for
  a game: the board as the player to move sees it.
\<close>

definition episode_after ::
  "('g, 'b) OthelloGame \<Rightarrow> ('k, 'e, 'b) MCTS \<Rightarrow> nat \<Rightarrow> nat \<Rightarrow> int \<Rightarrow> nat \<Rightarrow> real \<Rightarrow> (nat \<Rightarrow> nat) \<Rightarrow>
     nat \<Rightarrow> error + ('g, 'k, 'e, 'b) episode_state" where
  "episode_after G M board_size neural_network degree_exploration num_simulations
       policy_temperature rnd j =
     iterate_body j (episode_body G M num_simulations policy_temperature rnd)
       (game_init G board_size,
        OthelloMCTS_init M board_size neural_network degree_exploration, [], 0)"

definition recorded_state :: "('g, 'b) OthelloGame \<Rightarrow> 'g \<Rightarrow> 'b" where
  "recorded_state G game =
     (if game_current_player G game = WHITE
      then invert_board G (game_board G game) else game_board G game)"

text \<open>
  \<open>execute_episode(board_size, neural_network, degree_exploration, num_simulations,
  policy_temperature)\<close>.
\<close>

definition execute_episode ::
  "('g, 'b) OthelloGame \<Rightarrow> ('k, 'e, 'b) MCTS \<Rightarrow> nat \<Rightarrow> nat \<Rightarrow> int \<Rightarrow> nat \<Rightarrow> real \<Rightarrow> (nat \<Rightarrow> nat) \<Rightarrow>
     (error + ('b \<times> float64 list list \<times> int) list) option" where
  "execute_episode G M board_size neural_network degree_exploration num_simulations
       policy_temperature rnd =
     (case episode_loop G M board_size neural_network degree_exploration num_simulations
             policy_temperature rnd of
        None \<Rightarrow> None
      | Some (Inl e) \<Rightarrow> Some (Inl e)
      | Some (Inr (game, mcts, examples, k)) \<Rightarrow>
          (let winner = fst (game_get_winning_player G game) in
           Some (Inr (map (\<lambda>(state, policy, player).
                            (state, policy, if winner = Some player then 1 else - 1))
                       examples))))"

text \<open>
  For comparison, the episode as the specification words it, with a fresh tree built for
  every move-decision: the body runs on a newly constructed \<open>OthelloMCTS\<close> in place of the
  one in the loop's variable.
\<close>

definition execute_episode_fresh_tree_per_move ::
  "('g, 'b) OthelloGame \<Rightarrow> ('k, 'e, 'b) MCTS \<Rightarrow> nat \<Rightarrow> nat \<Rightarrow> int \<Rightarrow> nat \<Rightarrow> real \<Rightarrow> (nat \<Rightarrow> nat) \<Rightarrow>
     (error + ('b \<times> float64 list list \<times> int) list) option" where
  "execute_episode_fresh_tree_per_move G M board_size neural_network degree_exploration
       num_simulations policy_temperature rnd =
     (case while_loop (\<lambda>(game, mcts, examples, k). \<not> game_has_finished G game)
             (\<lambda>(game, mcts, examples, k).
                episode_body G M num_simulations policy_temperature rnd
                  (game, OthelloMCTS_init M board_size neural_network degree_exploration,
                   examples, k))
             (game_init G board_size,
              OthelloMCTS_init M board_size neural_network degree_exploration, [], 0) of
        None \<Rightarrow> None
      | Some (Inl e) \<Rightarrow> Some (Inl e)
      | Some (Inr (game, mcts, examples, k)) \<Rightarrow>
          (let winner = fst (game_get_winning_player G game) in
           Some (Inr (map (\<lambda>(state, policy, player).
                            (state, policy, if winner = Some player then 1 else - 1))
                       examples))))"

text \<open>
  A tree that only counts: its base state is the number of \<open>simulate\<close> calls it has
  received, which is also the visit count it reports for the square \<open>(0, 0)\<close>; the square
  \<open>(0, 1)\<close> always has visit count 1.
\<close>

definition counting_tree :: "(unit, nat, int) MCTS" where
  "counting_tree =
     \<lparr>mcts_init = (\<lambda>degree. 0),
      mcts_simulate = (\<lambda>self state. self\<lparr>self_base := Suc (self_base self)\<rparr>),
      mcts_N = (\<lambda>self state a. if a = (0, 0) then self_base self else 1),
      mcts_get_state_actions = (\<lambda>self state. [(0, 0), (0, 1)])\<rparr>"

lemma episode_body_step:
  assumes "episode_body G M n T rnd (game, mcts, examples, k) = Inr (game', mcts', examples', k')"
  shows "mcts' = ((\<lambda>m. mcts_simulate M m (game_board G game)) ^^ n) mcts \<and> k' = Suc k \<and>
         (\<exists>policy. get_policy_action_probabilities M mcts' (game_board G game) T (rnd k) =
                      Inr policy \<and>
            examples' = examples @ [(recorded_state G game, policy, game_current_player G game)])"
  using assms
  by (auto simp: episode_body_def recorded_state_def Let_def split: sum.splits)

lemma episode_after_Suc:
  assumes "episode_after G M b nn d n T rnd (Suc j) = Inr t"
  shows "\<exists>u. episode_after G M b nn d n T rnd j = Inr u \<and> episode_body G M n T rnd u = Inr t"
  using assms by (auto simp: episode_after_def split: sum.splits)

lemma episode_after_shape:
  "episode_after G M b nn d n T rnd j = Inr (g, m, ex, c) \<Longrightarrow> c = j \<and> length ex = j"
proof (induction j arbitrary: g m ex c)
  case 0
  then show ?case by (simp add: episode_after_def)
next
  case (Suc j)
  from episode_after_Suc[OF Suc.prems] obtain u
    where u: "episode_after G M b nn d n T rnd j = Inr u"
      and s: "episode_body G M n T rnd u = Inr (g, m, ex, c)"
    by blast
  obtain g0 m0 ex0 c0 where u0: "u = (g0, m0, ex0, c0)" by (cases u) auto
  have "c0 = j \<and> length ex0 = j" using Suc.IH u u0 by simp
  then show ?case using episode_body_step[OF s[unfolded u0]] by auto
qed

lemma episode_after_examples:
  assumes "episode_after G M b nn d n T rnd k = Inr (game, mcts, examples, c)" and "j < k"
  shows "\<exists>g m ex policy. episode_after G M b nn d n T rnd j = Inr (g, m, ex, j) \<and>
           get_policy_action_probabilities M
               (((\<lambda>t. mcts_simulate M t (game_board G g)) ^^ n) m) (game_board G g) T (rnd j) =
             Inr policy \<and>
           examples ! j = (recorded_state G g, policy, game_current_player G g)"
  using assms
proof (induction k arbitrary: game mcts examples c)
  case 0
  then show ?case by simp
next
  case (Suc k)
  from episode_after_Suc[OF Suc.prems(1)] obtain u
    where u: "episode_after G M b nn d n T rnd k = Inr u"
      and s: "episode_body G M n T rnd u = Inr (game, mcts, examples, c)"
    by blast
  obtain g0 m0 ex0 c0 where u0: "u = (g0, m0, ex0, c0)" by (cases u) auto
  have sh: "c0 = k" "length ex0 = k"
    using episode_after_shape[OF u[unfolded u0]] by simp_all
  from episode_body_step[OF s[unfolded u0]] obtain policy
    where m: "mcts = ((\<lambda>t. mcts_simulate M t (game_board G g0)) ^^ n) m0"
      and p: "get_policy_action_probabilities M mcts (game_board G g0) T (rnd c0) = Inr policy"
      and e: "examples = ex0 @ [(recorded_state G g0, policy, game_current_player G g0)]"
    by blast
  show ?case
  proof (cases "j = k")
    case True
    have "examples ! j = (recorded_state G g0, policy, game_current_player G g0)"
      unfolding e True sh(2)[symmetric] by simp
    then show ?thesis using u u0 sh(1) p m True by blast
  next
    case False
    then have jk: "j < k" using Suc.prems(2) by simp
    from Suc.IH[OF u[unfolded u0] jk] obtain g m ex pol
      where i: "episode_after G M b nn d n T rnd j = Inr (g, m, ex, j)"
        "get_policy_action_probabilities M
             (((\<lambda>t. mcts_simulate M t (game_board G g)) ^^ n) m) (game_board G g) T (rnd j) =
           Inr pol"
        "ex0 ! j = (recorded_state G g, pol, game_current_player G g)"
      by blast
    have "examples ! j = ex0 ! j" using e sh(2) jk by (simp add: nth_append)
    then show ?thesis using i by auto
  qed
qed

lemma episode_loop_trace:
  assumes "episode_loop G M b nn d n T rnd = Some (Inr (game, mcts, examples, k))"
  shows "episode_after G M b nn d n T rnd k = Inr (game, mcts, examples, k)"
    and "game_has_finished G game"
    and "length examples = k"
    and "\<forall>j<k. \<exists>g m ex. episode_after G M b nn d n T rnd j = Inr (g, m, ex, j) \<and>
            \<not> game_has_finished G g"
proof -
  from while_loop_trace[OF assms[unfolded episode_loop_def]] obtain K
    where K: "episode_after G M b nn d n T rnd K = Inr (game, mcts, examples, k)"
      and fin: "game_has_finished G game"
      and run: "\<forall>j<K. \<exists>u. episode_after G M b nn d n T rnd j = Inr u \<and>
                  (case u of (game, mcts, examples, k) \<Rightarrow> \<not> game_has_finished G game)"
    unfolding episode_after_def by auto
  have sh: "k = K" "length examples = K"
    using episode_after_shape[OF K] by simp_all
  show "episode_after G M b nn d n T rnd k = Inr (game, mcts, examples, k)"
    using K sh(1) by simp
  show "game_has_finished G game" by (rule fin)
  show "length examples = k" using sh by simp
  show "\<forall>j<k. \<exists>g m ex. episode_after G M b nn d n T rnd j = Inr (g, m, ex, j) \<and>
            \<not> game_has_finished G g"
  proof (intro allI impI)
    fix j assume "j < k"
    then have jK: "j < K" using sh(1) by simp
    with run obtain u where u: "episode_after G M b nn d n T rnd j = Inr u"
      "case u of (game, mcts, examples, k) \<Rightarrow> \<not> game_has_finished G game"
      by blast
    obtain g m ex c where u0: "u = (g, m, ex, c)" by (cases u) auto
    have "c = j" using episode_after_shape[OF u(1)[unfolded u0]] by simp
    then show "\<exists>g m ex. episode_after G M b nn d n T rnd j = Inr (g, m, ex, j) \<and>
                 \<not> game_has_finished G g"
      using u u0 by auto
  qed
qed

lemma bounded_instance:
  assumes "\<exists>x y z. A x y z \<and> B x y z \<and> (\<forall>j<k. Q x y z j)" and "i < (k::nat)"
  shows "\<exists>x y z. A x y z \<and> B x y z \<and> Q x y z i"
  using assms by blast

lemmas toy_defs =
  toy_game_def counting_tree_def OthelloMCTS_init_def constant_net_def

lemmas policy_defs =
  get_policy_action_probabilities_def zeros_def setitem_def ncols_def np_sum_def py_pow_one
  true_divide_small true_divide_zero f_add_small amax_def random_choice_def policy_max_def fmax_def f_eq_def argwhere_def
  indices_def first_item_def

lemma toy_episode:
  "execute_episode (toy_game 2 w) counting_tree 2 0 1 1 1 rnd =
     Some (Inr [(0, [[Fin (1 / 2), Fin (1 / 2)], [Fin 0, Fin 0]], if w = Some BLACK then 1 else - 1),
                (- 1, [[Fin (2 / 3), Fin (1 / 3)], [Fin 0, Fin 0]], if w = Some WHITE then 1 else - 1)])"
  by (simp add: execute_episode_def episode_loop_def episode_body_def while_loop.simps
      policy_defs toy_defs powr_one numeral_2_eq_2 Let_def)

lemma toy_episode_fresh:
  "execute_episode_fresh_tree_per_move (toy_game 2 w) counting_tree 2 0 1 1 1 rnd =
     Some (Inr [(0, [[Fin (1 / 2), Fin (1 / 2)], [Fin 0, Fin 0]], if w = Some BLACK then 1 else - 1),
                (- 1, [[Fin (1 / 2), Fin (1 / 2)], [Fin 0, Fin 0]], if w = Some WHITE then 1 else - 1)])"
  by (simp add: execute_episode_fresh_tree_per_move_def episode_body_def while_loop.simps
      policy_defs toy_defs powr_one numeral_2_eq_2 Let_def)

lemma toy_episode_loop:
  "episode_loop (toy_game 2 w) counting_tree 2 0 1 1 1 rnd =
     Some (Inr ((2, BLACK),
                \<lparr>self_board_size = 2, self_neural_network = 0, self_predict_cache = Map.empty,
                 self_base = 2\<rparr>,
                [(0, [[Fin (1 / 2), Fin (1 / 2)], [Fin 0, Fin 0]], BLACK),
                 (- 1, [[Fin (2 / 3), Fin (1 / 3)], [Fin 0, Fin 0]], WHITE)],
                2))"
  by (simp add: episode_loop_def episode_body_def while_loop.simps
      policy_defs toy_defs powr_one numeral_2_eq_2 Let_def)

text \<open>
  C2 (as the code behaves). \<open>execute_episode\<close> constructs one \<open>OthelloMCTS\<close> before the game
  loop, the tree of the loop's variables after 0 move-decisions, and every move-decision
  works on the tree its predecessor left. When the loop ends after \<open>k\<close> move-decisions, then
  for every \<open>j < k\<close>: the game after \<open>j\<close> move-decisions is unfinished; the policy recorded
  in example \<open>j\<close> is derived from the tree after \<open>j\<close> move-decisions to which the
  \<open>num_simulations\<close> simulate calls on the current board have been applied; and that very
  tree, not a new one, is the tree after \<open>j + 1\<close> move-decisions. So the statistics and
  cache entries of a move-decision carry over to the next ones.
\<close>

theorem execute_episode_single_tree:
  assumes "episode_loop G M board_size nn d num_simulations T rnd =
             Some (Inr (game, mcts, examples, k))"
  shows "episode_after G M board_size nn d num_simulations T rnd k =
           Inr (game, mcts, examples, k) \<and>
         (\<exists>g ex. episode_after G M board_size nn d num_simulations T rnd 0 =
                   Inr (g, OthelloMCTS_init M board_size nn d, ex, 0)) \<and>
         (\<forall>j<k. \<exists>g m ex g' ex' policy.
            episode_after G M board_size nn d num_simulations T rnd j = Inr (g, m, ex, j) \<and>
            \<not> game_has_finished G g \<and>
            get_policy_action_probabilities M
                (((\<lambda>t. mcts_simulate M t (game_board G g)) ^^ num_simulations) m)
                (game_board G g) T (rnd j) = Inr policy \<and>
            examples ! j = (recorded_state G g, policy, game_current_player G g) \<and>
            episode_after G M board_size nn d num_simulations T rnd (Suc j) =
              Inr (g', ((\<lambda>t. mcts_simulate M t (game_board G g)) ^^ num_simulations) m,
                   ex', Suc j))"
proof (intro conjI allI impI)
  note t = episode_loop_trace[OF assms]
  show "episode_after G M board_size nn d num_simulations T rnd k =
          Inr (game, mcts, examples, k)"
    by (rule t(1))
  show "\<exists>g ex. episode_after G M board_size nn d num_simulations T rnd 0 =
                 Inr (g, OthelloMCTS_init M board_size nn d, ex, 0)"
    by (simp add: episode_after_def)
  fix j assume jk: "j < k"
  from episode_after_examples[OF t(1) jk] obtain g m ex policy
    where a: "episode_after G M board_size nn d num_simulations T rnd j = Inr (g, m, ex, j)"
      and p: "get_policy_action_probabilities M
                (((\<lambda>t. mcts_simulate M t (game_board G g)) ^^ num_simulations) m)
                (game_board G g) T (rnd j) = Inr policy"
      and e: "examples ! j = (recorded_state G g, policy, game_current_player G g)"
    by blast
  have nf: "\<not> game_has_finished G g"
    using t(4) jk a by auto
  have "Suc j \<le> k" using jk by simp
  from iterate_body_prefix[OF t(1)[unfolded episode_after_def] this] obtain u'
    where u': "episode_after G M board_size nn d num_simulations T rnd (Suc j) = Inr u'"
    unfolding episode_after_def by blast
  from episode_after_Suc[OF u'] a
  have b: "episode_body G M num_simulations T rnd (g, m, ex, j) = Inr u'"
    by auto
  obtain g' m' ex' c' where u0: "u' = (g', m', ex', c')" by (cases u') auto
  have "m' = ((\<lambda>t. mcts_simulate M t (game_board G g)) ^^ num_simulations) m \<and> c' = Suc j"
    using episode_body_step[OF b[unfolded u0]] by simp
  then have s: "episode_after G M board_size nn d num_simulations T rnd (Suc j) =
      Inr (g', ((\<lambda>t. mcts_simulate M t (game_board G g)) ^^ num_simulations) m, ex', Suc j)"
    using u' u0 by simp
  show "\<exists>g m ex g' ex' policy.
            episode_after G M board_size nn d num_simulations T rnd j = Inr (g, m, ex, j) \<and>
            \<not> game_has_finished G g \<and>
            get_policy_action_probabilities M
                (((\<lambda>t. mcts_simulate M t (game_board G g)) ^^ num_simulations) m)
                (game_board G g) T (rnd j) = Inr policy \<and>
            examples ! j = (recorded_state G g, policy, game_current_player G g) \<and>
            episode_after G M board_size nn d num_simulations T rnd (Suc j) =
              Inr (g', ((\<lambda>t. mcts_simulate M t (game_board G g)) ^^ num_simulations) m,
                   ex', Suc j)"
    using a nf p e s by blast
qed

theorem execute_episode_single_tree_witness:
  "episode_after (toy_game 2 None) counting_tree 2 0 1 1 1 (\<lambda>k. 0) 2 =
     Inr ((2, BLACK),
          \<lparr>self_board_size = 2, self_neural_network = 0, self_predict_cache = Map.empty,
           self_base = 2\<rparr>,
          [(0, [[Fin (1 / 2), Fin (1 / 2)], [Fin 0, Fin 0]], BLACK),
           (- 1, [[Fin (2 / 3), Fin (1 / 3)], [Fin 0, Fin 0]], WHITE)],
          2) \<and>
   (\<exists>g ex. episode_after (toy_game 2 None) counting_tree 2 0 1 1 1 (\<lambda>k. 0) 0 =
             Inr (g, OthelloMCTS_init counting_tree 2 0 1, ex, 0)) \<and>
   (\<exists>g m ex g' ex' policy.
      episode_after (toy_game 2 None) counting_tree 2 0 1 1 1 (\<lambda>k. 0) 1 = Inr (g, m, ex, 1) \<and>
      \<not> game_has_finished (toy_game 2 None) g \<and>
      get_policy_action_probabilities counting_tree
          (((\<lambda>t. mcts_simulate counting_tree t (game_board (toy_game 2 None) g)) ^^ 1) m)
          (game_board (toy_game 2 None) g) 1 0 = Inr policy \<and>
      [(0, [[Fin (1 / 2), Fin (1 / 2)], [Fin 0, Fin 0]], BLACK),
       (- 1, [[Fin (2 / 3), Fin (1 / 3)], [Fin 0, Fin 0]], WHITE)] ! 1 =
        (recorded_state (toy_game 2 None) g, policy, game_current_player (toy_game 2 None) g) \<and>
      episode_after (toy_game 2 None) counting_tree 2 0 1 1 1 (\<lambda>k. 0) (Suc 1) =
        Inr (g', ((\<lambda>t. mcts_simulate counting_tree t (game_board (toy_game 2 None) g)) ^^ 1) m,
             ex', Suc 1))"
proof -
  note w = execute_episode_single_tree[OF toy_episode_loop[of None "\<lambda>k. 0"]]
  have l: "(1::nat) < 2" by simp
  show ?thesis
    by (intro conjI w[THEN conjunct1] w[THEN conjunct2, THEN conjunct1]
        w[THEN conjunct2, THEN conjunct2, THEN spec, THEN mp, OF l])
qed

text \<open>
  The claim as stated fails. On the two-move game with the counting tree, one simulation per
  move and temperature 1, the second example's policy is \<open>2/3, 1/3\<close>: the visit of the first
  move-decision is still counted. With a fresh tree per move-decision it would be \<open>1/2, 1/2\<close>.
\<close>

theorem execute_episode_tree_carries_over:
  "execute_episode (toy_game 2 None) counting_tree 2 0 1 1 1 (\<lambda>k. 0) =
     Some (Inr [(0, [[Fin (1 / 2), Fin (1 / 2)], [Fin 0, Fin 0]], - 1),
                (- 1, [[Fin (2 / 3), Fin (1 / 3)], [Fin 0, Fin 0]], - 1)]) \<and>
   execute_episode_fresh_tree_per_move (toy_game 2 None) counting_tree 2 0 1 1 1 (\<lambda>k. 0) =
     Some (Inr [(0, [[Fin (1 / 2), Fin (1 / 2)], [Fin 0, Fin 0]], - 1),
                (- 1, [[Fin (1 / 2), Fin (1 / 2)], [Fin 0, Fin 0]], - 1)])"
  using toy_episode[of None "\<lambda>k. 0"] toy_episode_fresh[of None "\<lambda>k. 0"] by simp

text \<open>
  C8 (as the code behaves). When \<open>execute_episode\<close> returns the examples \<open>exs\<close>, the loop
  has made \<open>length exs\<close> move-decisions and left a finished game. Example \<open>j\<close> was recorded at
  move-decision \<open>j\<close>, on a game \<open>g\<close> not yet finished: its state is the board as the player to
  move in \<open>g\<close> sees it, its policy the one derived at that move-decision, and its outcome,
  computed from the winner of the finished game, is \<open>1\<close> when the player to move in \<open>g\<close> is
  that winner and \<open>-1\<close> otherwise. So the outcome is \<open>-1\<close> for the loser and also for both
  players of a game without winner; \<open>0\<close> is never assigned.
\<close>

theorem execute_episode_outcome_labels:
  assumes "execute_episode G M board_size nn d num_simulations T rnd = Some (Inr exs)"
  shows "\<exists>game mcts examples.
           episode_after G M board_size nn d num_simulations T rnd (length exs) =
             Inr (game, mcts, examples, length exs) \<and>
           game_has_finished G game \<and>
           (\<forall>j<length exs. \<exists>g m ex.
              episode_after G M board_size nn d num_simulations T rnd j = Inr (g, m, ex, j) \<and>
              \<not> game_has_finished G g \<and>
              fst (exs ! j) = recorded_state G g \<and>
              get_policy_action_probabilities M
                  (((\<lambda>t. mcts_simulate M t (game_board G g)) ^^ num_simulations) m)
                  (game_board G g) T (rnd j) = Inr (fst (snd (exs ! j))) \<and>
              snd (snd (exs ! j)) =
                (if fst (game_get_winning_player G game) = Some (game_current_player G g)
                 then 1 else - 1))"
proof -
  let ?label = "\<lambda>game (state, policy, player).
      (state, policy, if fst (game_get_winning_player G game) = Some player then 1 else - 1 :: int)"
  from assms obtain game mcts examples k
    where l: "episode_loop G M board_size nn d num_simulations T rnd =
                Some (Inr (game, mcts, examples, k))"
      and e: "exs = map (?label game) examples"
    by (auto simp: execute_episode_def Let_def split: option.splits sum.splits)
  note t = episode_loop_trace[OF l]
  have len: "length exs = k" using e t(3) by simp
  have each: "\<exists>g m ex.
      episode_after G M board_size nn d num_simulations T rnd j = Inr (g, m, ex, j) \<and>
      \<not> game_has_finished G g \<and>
      fst (exs ! j) = recorded_state G g \<and>
      get_policy_action_probabilities M
          (((\<lambda>t. mcts_simulate M t (game_board G g)) ^^ num_simulations) m)
          (game_board G g) T (rnd j) = Inr (fst (snd (exs ! j))) \<and>
      snd (snd (exs ! j)) =
        (if fst (game_get_winning_player G game) = Some (game_current_player G g)
         then 1 else - 1)"
    if jk: "j < length exs" for j
  proof -
    have jk': "j < k" using jk len by simp
    from episode_after_examples[OF t(1) jk'] obtain g m ex policy
      where a: "episode_after G M board_size nn d num_simulations T rnd j = Inr (g, m, ex, j)"
        and p: "get_policy_action_probabilities M
                  (((\<lambda>t. mcts_simulate M t (game_board G g)) ^^ num_simulations) m)
                  (game_board G g) T (rnd j) = Inr policy"
        and x: "examples ! j = (recorded_state G g, policy, game_current_player G g)"
      by blast
    have nf: "\<not> game_has_finished G g"
      using t(4) jk' a by auto
    have "exs ! j = ?label game (examples ! j)"
      using e jk' t(3) by simp
    then have "exs ! j = (recorded_state G g, policy,
        if fst (game_get_winning_player G game) = Some (game_current_player G g) then 1 else - 1)"
      using x by simp
    then show ?thesis using a nf p by auto
  qed
  show ?thesis
    using t(1,2) each unfolding len[symmetric] by blast
qed

theorem execute_episode_outcome_labels_witness:
  "\<exists>game mcts examples.
     episode_after (toy_game 2 (Some BLACK)) counting_tree 2 0 1 1 1 (\<lambda>k. 0)
         (length [(0::int, [[Fin (1 / 2), Fin (1 / 2)], [Fin 0, Fin 0]],
                   if Some BLACK = Some BLACK then 1 else - 1 :: int),
                  (- 1, [[Fin (2 / 3), Fin (1 / 3)], [Fin 0, Fin 0]],
                   if Some BLACK = Some WHITE then 1 else - 1)]) =
       Inr (game, mcts, examples,
            length [(0::int, [[Fin (1 / 2), Fin (1 / 2)], [Fin 0, Fin 0]],
                     if Some BLACK = Some BLACK then 1 else - 1 :: int),
                    (- 1, [[Fin (2 / 3), Fin (1 / 3)], [Fin 0, Fin 0]],
                     if Some BLACK = Some WHITE then 1 else - 1)]) \<and>
     game_has_finished (toy_game 2 (Some BLACK)) game \<and>
     (\<exists>g m ex.
        episode_after (toy_game 2 (Some BLACK)) counting_tree 2 0 1 1 1 (\<lambda>k. 0) 1 =
          Inr (g, m, ex, 1) \<and>
        \<not> game_has_finished (toy_game 2 (Some BLACK)) g \<and>
        fst ([(0::int, [[Fin (1 / 2), Fin (1 / 2)], [Fin 0, Fin 0]],
               if Some BLACK = Some BLACK then 1 else - 1 :: int),
              (- 1, [[Fin (2 / 3), Fin (1 / 3)], [Fin 0, Fin 0]],
               if Some BLACK = Some WHITE then 1 else - 1)] ! 1) =
          recorded_state (toy_game 2 (Some BLACK)) g \<and>
        get_policy_action_probabilities counting_tree
            (((\<lambda>t. mcts_simulate counting_tree t (game_board (toy_game 2 (Some BLACK)) g)) ^^ 1) m)
            (game_board (toy_game 2 (Some BLACK)) g) 1 0 =
          Inr (fst (snd ([(0::int, [[Fin (1 / 2), Fin (1 / 2)], [Fin 0, Fin 0]],
                           if Some BLACK = Some BLACK then 1 else - 1 :: int),
                          (- 1, [[Fin (2 / 3), Fin (1 / 3)], [Fin 0, Fin 0]],
                           if Some BLACK = Some WHITE then 1 else - 1)] ! 1))) \<and>
        snd (snd ([(0::int, [[Fin (1 / 2), Fin (1 / 2)], [Fin 0, Fin 0]],
                    if Some BLACK = Some BLACK then 1 else - 1 :: int),
                   (- 1, [[Fin (2 / 3), Fin (1 / 3)], [Fin 0, Fin 0]],
                    if Some BLACK = Some WHITE then 1 else - 1)] ! 1)) =
          (if fst (game_get_winning_player (toy_game 2 (Some BLACK)) game) =
              Some (game_current_player (toy_game 2 (Some BLACK)) g)
           then 1 else - 1))"
proof -
  note w = execute_episode_outcome_labels[OF toy_episode[of "Some BLACK" "\<lambda>k. 0"]]
  show ?thesis
    by (rule bounded_instance[OF w]) simp
qed

text \<open>
  The claim as stated fails. The two-move game below ends without winner (a draw), and both
  examples returned carry the outcome \<open>-1\<close>, not \<open>0\<close>.
\<close>

theorem execute_episode_draw_is_minus_one:
  "fst (game_get_winning_player (toy_game 2 None) (2, BLACK)) = None \<and>
   map (\<lambda>ex. snd (snd ex))
     (case execute_episode (toy_game 2 None) counting_tree 2 0 1 1 1 (\<lambda>k. 0) of
        Some (Inr exs) \<Rightarrow> exs) = [- 1, - 1]"
  using toy_episode[of None "\<lambda>k. 0"] by (simp add: toy_game_def)

section \<open>The orchestrator: training\<close>

text \<open>
  What \<open>training\<close> does to the outside, in order: it copies a network (to the new address),
  collects the examples of an iteration's episodes, calls \<open>train\<close> on an object with a list
  of examples, saves parameters to the checkpoint file, tallies the duels, and keeps or
  drops the trained network.
\<close>

datatype ('w, 'x) event =
    Copy nat
  | Episodes "'x list"
  | Train nat "'x list"
  | Save 'w
  | Duels nat
  | Promote nat
  | Revert nat

text \<open>
  The state of \<open>training\<close>: the \<open>NNetWrapper\<close> objects (\<open>nets a\<close> holds the parameters of
  the object at address \<open>a\<close>, \<open>fresh\<close> is the next unused address), the variables
  \<open>neural_network\<close>, \<open>training_examples\<close> and \<open>temperature\<close>, the content of the checkpoint
  file, and the events so far.
\<close>

record ('w, 'x) trainer =
  nets :: "nat \<Rightarrow> 'w"
  fresh :: nat
  neural_network :: nat
  training_examples :: "'x list"
  temperature :: real
  checkpoint :: "'w option"
  events :: "('w, 'x) event list"

text \<open>The arguments of \<open>training\<close> that stay fixed.\<close>

record args =
  board_size :: nat
  num_iterations :: int
  num_episodes :: int
  num_simulations :: nat
  degree_exploration :: int
  total_games :: int
  victory_threshold :: int
  temperature_threshold :: "int option"

text \<open>An example as \<open>execute_episode\<close> returns it: state, policy and outcome.\<close>

type_synonym 'b example = "'b \<times> float64 list list \<times> int"

text \<open>
  What \<open>training\<close> runs on and the sources do not hold: the rules engine; the base class
  \<open>MCTS\<close>, whose \<open>simulate\<close> consults the network objects; the network's \<open>predict\<close> and
  \<open>train\<close> as functions of its parameters (\<open>train\<close> changes them in place); the random
  generator's draws in episode \<open>e\<close> of iteration \<open>i\<close>; and the order in which \<open>as_completed\<close>
  yields the tasks of an iteration.
\<close>

record ('w, 'g, 'b, 'k, 'e) world =
  rules :: "('g, 'b) OthelloGame"
  tree_search :: "(nat \<Rightarrow> 'w) \<Rightarrow> ('k, 'e, 'b) MCTS"
  net_predict :: "'w \<Rightarrow> 'b \<Rightarrow> error + prediction"
  net_train :: "'w \<Rightarrow> 'b example list \<Rightarrow> 'w"
  generator :: "int \<Rightarrow> int \<Rightarrow> nat \<Rightarrow> nat"
  episodes_completed :: "int \<Rightarrow> int list \<Rightarrow> int list"
  games_completed :: "int \<Rightarrow> int list \<Rightarrow> int list"

text \<open>
  Collecting the results of the submitted tasks in completion order: the first exception
  met propagates, but leaving the \<open>with\<close> block waits for every task, so a task that never
  completes blocks the iteration.
\<close>

fun gather :: "('a \<Rightarrow> (error + 'r) option) \<Rightarrow> 'a list \<Rightarrow> (error + 'r list) option" where
  "gather f [] = Some (Inr [])"
| "gather f (t # ts) =
     (case f t of
        None \<Rightarrow> None
      | Some r \<Rightarrow>
          (case gather f ts of
             None \<Rightarrow> None
           | Some rs \<Rightarrow>
               Some (case r of
                       Inl e \<Rightarrow> Inl e
                     | Inr x \<Rightarrow> (case rs of Inl e \<Rightarrow> Inl e | Inr xs \<Rightarrow> Inr (x # xs)))))"

text \<open>
  \<open>old_neural_network = neural_network.copy()\<close>. Modelled from the spec: \<open>NNetWrapper.copy\<close>
  is not in the sources; the specification gives it as a deep, parameter-independent clone.
  So the copy is a new object, at the address \<open>fresh s\<close>, with the parameters of the copied
  one.
\<close>

definition snapshot :: "('w, 'x) trainer \<Rightarrow> ('w, 'x) trainer" where
  "snapshot s =
     s\<lparr>nets := (nets s)(fresh s := nets s (neural_network s)), fresh := Suc (fresh s),
       events := events s @ [Copy (fresh s)]\<rparr>"

text \<open>\<open>if temperature_threshold and i >= temperature_threshold: temperature = 0\<close>.\<close>

definition lower_temperature :: "args \<Rightarrow> int \<Rightarrow> ('w, 'x) trainer \<Rightarrow> ('w, 'x) trainer" where
  "lower_temperature A i s =
     (case temperature_threshold A of
        None \<Rightarrow> s
      | Some t \<Rightarrow> if t \<noteq> 0 \<and> t \<le> i then s\<lparr>temperature := 0\<rparr> else s)"

text \<open>
  The episodes of iteration \<open>i\<close>: \<open>execute_episode\<close> submitted \<open>num_episodes\<close> times, and
  \<open>training_examples.extend\<close> for each result, in completion order.
\<close>

definition generate_episodes ::
  "('w, 'g, 'b, 'k, 'e) world \<Rightarrow> args \<Rightarrow> int \<Rightarrow> ('w, 'b example) trainer \<Rightarrow>
     (error + ('w, 'b example) trainer) option" where
  "generate_episodes W A i s =
     (case gather (\<lambda>e. execute_episode (rules W) (tree_search W (nets s)) (board_size A)
                        (neural_network s) (degree_exploration A) (num_simulations A)
                        (temperature s) (generator W i e))
             (episodes_completed W i [1..num_episodes A]) of
        None \<Rightarrow> None
      | Some (Inl e) \<Rightarrow> Some (Inl e)
      | Some (Inr results) \<Rightarrow>
          Some (Inr (s\<lparr>training_examples := training_examples s @ concat results,
                       events := events s @ [Episodes (concat results)]\<rparr>)))"

text \<open>
  \<open>neural_network.train(training_examples)\<close>, then \<open>neural_network.save_checkpoint\<close>.
  Modelled from the spec: neither method is in the sources; the specification has \<open>train\<close>
  change the parameters of the object in place and \<open>save_checkpoint\<close> persist the
  parameters of the object it is called on.
\<close>

definition train_and_save ::
  "('w, 'g, 'b, 'k, 'e) world \<Rightarrow> ('w, 'b example) trainer \<Rightarrow> ('w, 'b example) trainer" where
  "train_and_save W s =
     (let trained = net_train W (nets s (neural_network s)) (training_examples s) in
      s\<lparr>nets := (nets s)(neural_network s := trained),
        checkpoint := Some trained,
        events := events s @ [Train (neural_network s) (training_examples s), Save trained]\<rparr>)"

text \<open>
  The duels of iteration \<open>i\<close>: \<open>duel_between_neural_networks\<close> submitted \<open>total_games\<close> times
  with the snapshot and the trained network, and the tally of the results.
\<close>

definition evaluate ::
  "('w, 'g, 'b, 'k, 'e) world \<Rightarrow> args \<Rightarrow> int \<Rightarrow> nat \<Rightarrow> ('w, 'b example) trainer \<Rightarrow>
     (error + nat) option" where
  "evaluate W A i old_neural_network s =
     (case gather (\<lambda>g. duel_between_neural_networks (rules W) (\<lambda>nn. net_predict W (nets s nn))
                        (board_size A) old_neural_network (neural_network s))
             (games_completed W i [1..total_games A]) of
        None \<Rightarrow> None
      | Some (Inl e) \<Rightarrow> Some (Inl e)
      | Some (Inr winners) \<Rightarrow> Some (Inr (count_victories winners (neural_network s))))"

text \<open>\<open>if new_net_victories >= victory_threshold: ... else: neural_network = old_neural_network\<close>.\<close>

definition promote :: "args \<Rightarrow> nat \<Rightarrow> nat \<Rightarrow> ('w, 'x) trainer \<Rightarrow> ('w, 'x) trainer" where
  "promote A old_neural_network new_net_victories s =
     (if victory_threshold A \<le> int new_net_victories
      then s\<lparr>events := events s @ [Duels new_net_victories, Promote (neural_network s)]\<rparr>
      else s\<lparr>neural_network := old_neural_network,
             events := events s @ [Duels new_net_victories, Revert old_neural_network]\<rparr>)"

text \<open>The body of the loop of \<open>training\<close>, for iteration \<open>i\<close>.\<close>

definition training_iteration ::
  "('w, 'g, 'b, 'k, 'e) world \<Rightarrow> args \<Rightarrow> int \<Rightarrow> ('w, 'b example) trainer \<Rightarrow>
     (error + ('w, 'b example) trainer) option" where
  "training_iteration W A i s =
     (let old_neural_network = fresh s;
          s1 = lower_temperature A i (snapshot s) in
      case generate_episodes W A i s1 of
        None \<Rightarrow> None
      | Some (Inl e) \<Rightarrow> Some (Inl e)
      | Some (Inr s2) \<Rightarrow>
          (let s3 = train_and_save W s2 in
           case evaluate W A i old_neural_network s3 of
             None \<Rightarrow> None
           | Some (Inl e) \<Rightarrow> Some (Inl e)
           | Some (Inr new_net_victories) \<Rightarrow>
               Some (Inr (promote A old_neural_network new_net_victories s3))))"

text \<open>\<open>for i in range(1, num_iterations + 1)\<close>; an exception ends the loop.\<close>

fun training_from ::
  "('w, 'g, 'b, 'k, 'e) world \<Rightarrow> args \<Rightarrow> int list \<Rightarrow> ('w, 'b example) trainer \<Rightarrow>
     (error + ('w, 'b example) trainer) option" where
  "training_from W A [] s = Some (Inr s)"
| "training_from W A (i # rest) s =
     (case training_iteration W A i s of
        None \<Rightarrow> None
      | Some (Inl e) \<Rightarrow> Some (Inl e)
      | Some (Inr s') \<Rightarrow> training_from W A rest s')"

text \<open>
  \<open>training\<close>, from the objects that exist at the call, the network passed, the temperature
  passed and the content of the checkpoint file.
\<close>

definition training ::
  "('w, 'g, 'b, 'k, 'e) world \<Rightarrow> args \<Rightarrow> (nat \<Rightarrow> 'w) \<Rightarrow> nat \<Rightarrow> nat \<Rightarrow> real \<Rightarrow> 'w option \<Rightarrow>
     (error + ('w, 'b example) trainer) option" where
  "training W A objects next_address network temp file =
     training_from W A [1..num_iterations A]
       \<lparr>nets = objects, fresh = next_address, neural_network = network, training_examples = [],
        temperature = temp, checkpoint = file, events = []\<rparr>"

text \<open>The example lists of the \<open>Episodes\<close> events and of the \<open>train\<close> calls, in order.\<close>

fun episode_batches :: "('w, 'x) event list \<Rightarrow> 'x list list" where
  "episode_batches [] = []"
| "episode_batches (Episodes xs # evs) = xs # episode_batches evs"
| "episode_batches (ev # evs) = episode_batches evs"

fun train_calls :: "('w, 'x) event list \<Rightarrow> 'x list list" where
  "train_calls [] = []"
| "train_calls (Train a xs # evs) = xs # train_calls evs"
| "train_calls (ev # evs) = train_calls evs"

text \<open>
  A small run: the two-move game that WHITE always wins, the counting tree, networks whose
  parameters are a number, \<open>train\<close> adding the number of examples to it.
\<close>

definition toy_world :: "(nat, nat \<times> OthelloPlayer, int, unit, nat) world" where
  "toy_world =
     \<lparr>rules = toy_game 2 (Some WHITE), tree_search = (\<lambda>objects. counting_tree),
      net_predict = constant_net, net_train = (\<lambda>w xs. w + length xs),
      generator = (\<lambda>i e k. 0), episodes_completed = (\<lambda>i es. es),
      games_completed = (\<lambda>i gs. gs)\<rparr>"

definition toy_args :: "int \<Rightarrow> args" where
  "toy_args n =
     \<lparr>board_size = 2, num_iterations = n, num_episodes = 1, num_simulations = 1,
      degree_exploration = 1, total_games = 2, victory_threshold = 1,
      temperature_threshold = None\<rparr>"

definition toy_batch :: "int example list" where
  "toy_batch =
     [(0, [[Fin (1 / 2), Fin (1 / 2)], [Fin 0, Fin 0]], - 1),
      (- 1, [[Fin (2 / 3), Fin (1 / 3)], [Fin 0, Fin 0]], 1)]"

definition toy_start :: "(nat, int example) trainer" where
  "toy_start =
     \<lparr>nets = (\<lambda>a. 0), fresh = 1, neural_network = 0, training_examples = [],
      temperature = 1, checkpoint = None, events = []\<rparr>"

definition toy_reverted :: "(nat, int example) trainer" where
  "toy_reverted =
     \<lparr>nets = (\<lambda>a. 0)(1 := 0, 0 := 2), fresh = 2, neural_network = 1,
      training_examples = toy_batch, temperature = 1, checkpoint = Some 2,
      events = [Copy 1, Episodes toy_batch, Train 0 toy_batch, Save 2, Duels 0, Revert 1]\<rparr>"

text \<open>
  The state of that run when the duels of its first iteration are played, and its state
  after two iterations.
\<close>

definition toy_trained :: "(nat, int example) trainer" where
  "toy_trained =
     \<lparr>nets = (\<lambda>a. 0)(1 := 0, 0 := 2), fresh = 2, neural_network = 0,
      training_examples = toy_batch, temperature = 1, checkpoint = Some 2,
      events = [Copy 1, Episodes toy_batch, Train 0 toy_batch, Save 2]\<rparr>"

definition toy_final :: "(nat, int example) trainer" where
  "toy_final =
     \<lparr>nets = (\<lambda>a. 0)(1 := 0, 0 := 2, 2 := 0, 1 := 4), fresh = 3, neural_network = 2,
      training_examples = toy_batch @ toy_batch, temperature = 1, checkpoint = Some 4,
      events = [Copy 1, Episodes toy_batch, Train 0 toy_batch, Save 2, Duels 0, Revert 1,
                Copy 2, Episodes toy_batch, Train 1 (toy_batch @ toy_batch), Save 4, Duels 0,
                Revert 2]\<rparr>"

lemma lower_temperature_fields:
  "nets (lower_temperature A i s) = nets s"
  "fresh (lower_temperature A i s) = fresh s"
  "neural_network (lower_temperature A i s) = neural_network s"
  "training_examples (lower_temperature A i s) = training_examples s"
  "checkpoint (lower_temperature A i s) = checkpoint s"
  "events (lower_temperature A i s) = events s"
  by (simp_all add: lower_temperature_def split: option.splits)

lemma training_iteration_steps:
  assumes "training_iteration W A i s = Some (Inr s')"
  shows "\<exists>results winners.
     gather (\<lambda>e. execute_episode (rules W) (tree_search W (nets (snapshot s))) (board_size A)
                  (neural_network s) (degree_exploration A) (num_simulations A)
                  (temperature (lower_temperature A i (snapshot s))) (generator W i e))
       (episodes_completed W i [1..num_episodes A]) = Some (Inr results) \<and>
     gather (\<lambda>g. duel_between_neural_networks (rules W) (\<lambda>nn. net_predict W (nets s' nn))
                  (board_size A) (fresh s) (neural_network s))
       (games_completed W i [1..total_games A]) = Some (Inr winners) \<and>
     s' = promote A (fresh s) (count_victories winners (neural_network s))
            (train_and_save W
               ((lower_temperature A i (snapshot s))
                  \<lparr>training_examples := training_examples s @ concat results,
                   events := events s @ [Copy (fresh s), Episodes (concat results)]\<rparr>))"
proof -
  define s1 where "s1 = lower_temperature A i (snapshot s)"
  have f1: "nets s1 = nets (snapshot s)" "neural_network s1 = neural_network s"
    "training_examples s1 = training_examples s" "events s1 = events s @ [Copy (fresh s)]"
    by (simp_all add: s1_def lower_temperature_fields snapshot_def)
  from assms obtain s2 v
    where g: "generate_episodes W A i s1 = Some (Inr s2)"
      and e: "evaluate W A i (fresh s) (train_and_save W s2) = Some (Inr v)"
      and r: "s' = promote A (fresh s) v (train_and_save W s2)"
    by (auto simp: training_iteration_def Let_def s1_def split: option.splits sum.splits)
  from g obtain results
    where gr: "gather (\<lambda>e. execute_episode (rules W) (tree_search W (nets s1)) (board_size A)
                  (neural_network s1) (degree_exploration A) (num_simulations A)
                  (temperature s1) (generator W i e))
                (episodes_completed W i [1..num_episodes A]) = Some (Inr results)"
      and s2: "s2 = s1\<lparr>training_examples := training_examples s1 @ concat results,
                       events := events s1 @ [Episodes (concat results)]\<rparr>"
    by (auto simp: generate_episodes_def split: option.splits sum.splits)
  let ?s3 = "train_and_save W s2"
  from e obtain winners
    where gw: "gather (\<lambda>g. duel_between_neural_networks (rules W)
                  (\<lambda>nn. net_predict W (nets ?s3 nn)) (board_size A) (fresh s) (neural_network ?s3))
                (games_completed W i [1..total_games A]) = Some (Inr winners)"
      and v: "v = count_victories winners (neural_network ?s3)"
    by (auto simp: evaluate_def split: option.splits sum.splits)
  have n3: "neural_network ?s3 = neural_network s"
    by (simp add: train_and_save_def Let_def s2 f1)
  have n': "nets s' = nets ?s3"
    by (simp add: r promote_def)
  have 1: "gather (\<lambda>e. execute_episode (rules W) (tree_search W (nets (snapshot s))) (board_size A)
                  (neural_network s) (degree_exploration A) (num_simulations A)
                  (temperature (lower_temperature A i (snapshot s))) (generator W i e))
       (episodes_completed W i [1..num_episodes A]) = Some (Inr results)"
    using gr by (simp add: f1) (simp add: s1_def)
  have 2: "gather (\<lambda>g. duel_between_neural_networks (rules W) (\<lambda>nn. net_predict W (nets s' nn))
                  (board_size A) (fresh s) (neural_network s))
       (games_completed W i [1..total_games A]) = Some (Inr winners)"
    using gw by (simp add: n3 n')
  have 3: "s' = promote A (fresh s) (count_victories winners (neural_network s))
            (train_and_save W
               ((lower_temperature A i (snapshot s))
                  \<lparr>training_examples := training_examples s @ concat results,
                   events := events s @ [Copy (fresh s), Episodes (concat results)]\<rparr>))"
    using r v n3 s2 f1 by (simp add: s1_def)
  from 1 2 3 show ?thesis by blast
qed

lemma training_iteration_trace:
  assumes "training_iteration W A i s = Some (Inr s')"
  shows "\<exists>batch w v d. training_examples s' = training_examples s @ batch \<and>
           events s' = events s @ [Copy (fresh s), Episodes batch,
                                   Train (neural_network s) (training_examples s @ batch),
                                   Save w, Duels v, d] \<and>
           (d = Promote (neural_network s) \<or> d = Revert (fresh s))"
proof -
  from training_iteration_steps[OF assms] obtain results winners
    where r: "s' = promote A (fresh s) (count_victories winners (neural_network s))
            (train_and_save W
               ((lower_temperature A i (snapshot s))
                  \<lparr>training_examples := training_examples s @ concat results,
                   events := events s @ [Copy (fresh s), Episodes (concat results)]\<rparr>))"
    by blast
  show ?thesis
    unfolding r
    by (simp add: promote_def train_and_save_def Let_def lower_temperature_fields snapshot_def)
qed

lemma training_iteration_result:
  assumes it: "training_iteration W A i s = Some (Inr s')"
    and inv: "neural_network s < fresh s"
  shows "\<exists>results winners.
     gather (\<lambda>g. duel_between_neural_networks (rules W) (\<lambda>nn. net_predict W (nets s' nn))
                  (board_size A) (fresh s) (neural_network s))
       (games_completed W i [1..total_games A]) = Some (Inr winners) \<and>
     training_examples s' = training_examples s @ concat results \<and>
     fresh s' = Suc (fresh s) \<and>
     neural_network s' =
       (if victory_threshold A \<le> int (count_victories winners (neural_network s))
        then neural_network s else fresh s) \<and>
     nets s' = (nets s)(fresh s := nets s (neural_network s),
                        neural_network s :=
                          net_train W (nets s (neural_network s)) (training_examples s')) \<and>
     checkpoint s' = Some (net_train W (nets s (neural_network s)) (training_examples s')) \<and>
     events s' = events s @
       [Copy (fresh s), Episodes (concat results),
        Train (neural_network s) (training_examples s'),
        Save (net_train W (nets s (neural_network s)) (training_examples s')),
        Duels (count_victories winners (neural_network s)),
        if victory_threshold A \<le> int (count_victories winners (neural_network s))
        then Promote (neural_network s) else Revert (fresh s)]"
proof -
  from training_iteration_steps[OF it] obtain results winners
    where g: "gather (\<lambda>g. duel_between_neural_networks (rules W)
                  (\<lambda>nn. net_predict W (nets s' nn)) (board_size A) (fresh s) (neural_network s))
                (games_completed W i [1..total_games A]) = Some (Inr winners)"
      and r: "s' = promote A (fresh s) (count_victories winners (neural_network s))
            (train_and_save W
               ((lower_temperature A i (snapshot s))
                  \<lparr>training_examples := training_examples s @ concat results,
                   events := events s @ [Copy (fresh s), Episodes (concat results)]\<rparr>))"
    by blast
  have ne: "neural_network s \<noteq> fresh s" using inv by simp
  have f: "training_examples s' = training_examples s @ concat results \<and>
     fresh s' = Suc (fresh s) \<and>
     neural_network s' =
       (if victory_threshold A \<le> int (count_victories winners (neural_network s))
        then neural_network s else fresh s) \<and>
     nets s' = (nets s)(fresh s := nets s (neural_network s),
                        neural_network s :=
                          net_train W (nets s (neural_network s)) (training_examples s')) \<and>
     checkpoint s' = Some (net_train W (nets s (neural_network s)) (training_examples s')) \<and>
     events s' = events s @
       [Copy (fresh s), Episodes (concat results),
        Train (neural_network s) (training_examples s'),
        Save (net_train W (nets s (neural_network s)) (training_examples s')),
        Duels (count_victories winners (neural_network s)),
        if victory_threshold A \<le> int (count_victories winners (neural_network s))
        then Promote (neural_network s) else Revert (fresh s)]"
    unfolding r using ne
    by (simp add: promote_def train_and_save_def Let_def lower_temperature_fields snapshot_def)
  from g f show ?thesis by blast
qed

lemma gather_results:
  "gather f ts = Some (Inr rs) \<Longrightarrow> \<forall>r\<in>set rs. \<exists>t\<in>set ts. f t = Some (Inr r)"
proof (induction ts arbitrary: rs)
  case Nil
  then show ?case by simp
next
  case (Cons t ts)
  from Cons.prems obtain x xs
    where x: "f t = Some (Inr x)" and xs: "gather f ts = Some (Inr xs)" and rs: "rs = x # xs"
    by (auto split: option.splits sum.splits)
  from Cons.IH[OF xs] x rs show ?case by auto
qed

lemma episode_batches_append:
  "episode_batches (xs @ ys) = episode_batches xs @ episode_batches ys"
  by (induction xs rule: episode_batches.induct) simp_all

lemma train_calls_append: "train_calls (xs @ ys) = train_calls xs @ train_calls ys"
  by (induction xs rule: train_calls.induct) simp_all

lemma training_from_accumulates:
  assumes "training_from W A iterations s = Some (Inr s')"
    and "training_examples s = concat (episode_batches (events s))"
    and "train_calls (events s) =
           map (\<lambda>j. concat (take (Suc j) (episode_batches (events s))))
             [0..<length (episode_batches (events s))]"
  shows "training_examples s' = concat (episode_batches (events s')) \<and>
         train_calls (events s') =
           map (\<lambda>j. concat (take (Suc j) (episode_batches (events s'))))
             [0..<length (episode_batches (events s'))] \<and>
         length (episode_batches (events s')) =
           length (episode_batches (events s)) + length iterations"
  using assms
proof (induction iterations arbitrary: s)
  case Nil
  then show ?case by simp
next
  case (Cons i rest)
  from Cons.prems(1) obtain s1
    where it: "training_iteration W A i s = Some (Inr s1)"
      and rest: "training_from W A rest s1 = Some (Inr s')"
    by (auto split: option.splits sum.splits)
  from training_iteration_trace[OF it] obtain batch w v d
    where ex: "training_examples s1 = training_examples s @ batch"
      and ev: "events s1 = events s @ [Copy (fresh s), Episodes batch,
                                   Train (neural_network s) (training_examples s @ batch),
                                   Save w, Duels v, d]"
      and d: "d = Promote (neural_network s) \<or> d = Revert (fresh s)"
    by blast
  let ?B = "episode_batches (events s)"
  have b1: "episode_batches (events s1) = ?B @ [batch]"
    using d by (auto simp: ev episode_batches_append)
  have t1: "train_calls (events s1) = train_calls (events s) @ [training_examples s @ batch]"
    using d by (auto simp: ev train_calls_append)
  have a: "training_examples s1 = concat (episode_batches (events s1))"
    by (simp add: ex b1 Cons.prems(2))
  have "map (\<lambda>j. concat (take (Suc j) (?B @ [batch]))) [0..<length ?B] =
        map (\<lambda>j. concat (take (Suc j) ?B)) [0..<length ?B]"
    by (rule map_cong) simp_all
  then have b: "train_calls (events s1) =
           map (\<lambda>j. concat (take (Suc j) (episode_batches (events s1))))
             [0..<length (episode_batches (events s1))]"
    by (simp add: t1 b1 Cons.prems(2,3)[symmetric])
  from Cons.IH[OF rest a b] show ?case by (simp add: b1)
qed

lemma upto_1_1: "[1..1::int] = [1]"
  by (simp add: upto.simps)

lemma upto_1_2: "[1..2::int] = [1, 2]"
  by (simp add: upto.simps)

lemma toy_duel_two:
  "duel_between_neural_networks (toy_game 2 w) (\<lambda>nn. constant_net (objects nn)) 2 a b =
     Some (Inr (Player w))"
  by (simp add: duel_between_neural_networks_def duel_body_def while_loop.simps py_max_def
      toy_defs numeral_2_eq_2)

lemma toy_episode_any:
  "execute_episode (toy_game 2 w) counting_tree 2 nn 1 (Suc 0) 1 rnd =
     Some (Inr [(0, [[Fin (1 / 2), Fin (1 / 2)], [Fin 0, Fin 0]], if w = Some BLACK then 1 else - 1),
                (- 1, [[Fin (2 / 3), Fin (1 / 3)], [Fin 0, Fin 0]], if w = Some WHITE then 1 else - 1)])"
  by (simp add: execute_episode_def episode_loop_def episode_body_def while_loop.simps
      policy_defs toy_defs powr_one numeral_2_eq_2 Let_def)

lemma toy_iteration:
  "training_iteration toy_world (toy_args n) 1 toy_start = Some (Inr toy_reverted)"
  by (simp add: toy_episode_any toy_duel_two training_iteration_def generate_episodes_def evaluate_def train_and_save_def
      promote_def snapshot_def lower_temperature_def toy_world_def toy_args_def toy_start_def
      toy_reverted_def toy_batch_def count_victories_def upto_1_1 upto_1_2 Let_def
      fun_eq_iff)

lemma toy_training:
  "training toy_world (toy_args 2) (\<lambda>a. 0) 1 0 1 None = Some (Inr toy_final)"
  by (simp add: toy_episode_any toy_duel_two training_def training_iteration_def
      generate_episodes_def evaluate_def train_and_save_def
      promote_def snapshot_def lower_temperature_def toy_world_def toy_args_def
      toy_final_def toy_batch_def count_victories_def upto_1_1 upto_1_2 Let_def
      fun_eq_iff)

lemma toy_start_inv: "neural_network toy_start < fresh toy_start"
  by (simp add: toy_start_def)

text \<open>
  C1. The tally \<open>training\<close> makes of the duels of an iteration is 0 whatever their outcome:
  \<open>duel_between_neural_networks\<close> returns the \<open>OthelloPlayer\<close> that won (or no player), never
  one of the two network objects, so no result \<open>is\<close> the new network.
\<close>

theorem training_counts_no_victory:
  assumes "evaluate W A i old_neural_network s = Some (Inr new_net_victories)"
  shows "new_net_victories = 0"
proof -
  from assms obtain winners
    where g: "gather (\<lambda>g. duel_between_neural_networks (rules W) (\<lambda>nn. net_predict W (nets s nn))
                  (board_size A) old_neural_network (neural_network s))
                (games_completed W i [1..total_games A]) = Some (Inr winners)"
      and v: "new_net_victories = count_victories winners (neural_network s)"
    by (auto simp: evaluate_def split: option.splits sum.splits)
  have "\<forall>w\<in>set winners. \<exists>p. w = Player p"
  proof
    fix w assume "w \<in> set winners"
    with gather_results[OF g]
    have "duel_between_neural_networks (rules W) (\<lambda>nn. net_predict W (nets s nn))
            (board_size A) old_neural_network (neural_network s) = Some (Inr w)"
      by blast
    from duel_returns_player[OF this] show "\<exists>p. w = Player p" by blast
  qed
  then show ?thesis unfolding v by (rule count_victories_players)
qed

theorem training_counts_no_victory_witness:
  "duel_between_neural_networks (rules toy_world)
       (\<lambda>nn. net_predict toy_world (nets toy_trained nn)) (board_size (toy_args 1)) 1
       (neural_network toy_trained) =
     Some (Inr (Player (Some WHITE))) \<and>
   evaluate toy_world (toy_args 1) 1 1 toy_trained =
     Some (Inr (count_victories [Player (Some WHITE), Player (Some WHITE)]
                  (neural_network toy_trained))) \<and>
   count_victories [Player (Some WHITE), Player (Some WHITE)] (neural_network toy_trained) = 0"
proof -
  have d: "duel_between_neural_networks (rules toy_world)
       (\<lambda>nn. net_predict toy_world (nets toy_trained nn)) (board_size (toy_args 1)) 1
       (neural_network toy_trained) =
     Some (Inr (Player (Some WHITE)))"
    by (simp add: toy_duel_two toy_world_def toy_args_def)
  have e: "evaluate toy_world (toy_args 1) 1 1 toy_trained =
     Some (Inr (count_victories [Player (Some WHITE), Player (Some WHITE)]
                  (neural_network toy_trained)))"
    by (simp add: evaluate_def toy_duel_two toy_world_def toy_args_def upto_1_2)
  show ?thesis
    by (intro conjI d e training_counts_no_victory[OF e])
qed



text \<open>
  C9. When \<open>training\<close> returns, there has been one batch of episode examples and one call of
  \<open>train\<close> per iteration, and the list passed to the \<open>train\<close> call of iteration \<open>j + 1\<close> is
  the concatenation of the batches of the iterations \<open>1\<close> to \<open>j + 1\<close>: the accumulator, empty
  at the start, is only ever extended, whichever network produced the examples and whether
  or not it was kept.
\<close>

theorem training_examples_accumulate:
  assumes "training W A objects next_address network temp file = Some (Inr s)"
  shows "length (episode_batches (events s)) = nat (num_iterations A) \<and>
         train_calls (events s) =
           map (\<lambda>j. concat (take (Suc j) (episode_batches (events s))))
             [0..<nat (num_iterations A)] \<and>
         training_examples s = concat (episode_batches (events s))"
proof -
  let ?s0 = "\<lparr>nets = objects, fresh = next_address, neural_network = network,
              training_examples = [], temperature = temp, checkpoint = file, events = []\<rparr>"
  have r: "training_from W A [1..num_iterations A] ?s0 = Some (Inr s)"
    using assms by (simp add: training_def)
  show ?thesis
    using training_from_accumulates[OF r] by simp
qed

theorem training_examples_accumulate_witness:
  "length (episode_batches (events toy_final)) = nat (num_iterations (toy_args 2)) \<and>
   train_calls (events toy_final) =
     map (\<lambda>j. concat (take (Suc j) (episode_batches (events toy_final))))
       [0..<nat (num_iterations (toy_args 2))] \<and>
   training_examples toy_final = concat (episode_batches (events toy_final))"
  by (rule training_examples_accumulate[OF toy_training])

text \<open>
  C10. A training iteration that completes, started with \<open>neural_network\<close> referring to an
  existing object, does in this order: copy the network, collect the episodes, call
  \<open>train\<close>, save the checkpoint, tally the duels, decide. The save is unconditional and
  comes before the decision; nothing is saved after it. So the checkpoint holds the
  parameters of the trained candidate whatever the decision, and when the tally is below
  \<open>victory_threshold\<close> the variable \<open>neural_network\<close> refers to the snapshot, which holds the
  parameters the baseline had at the start of the iteration, while the checkpoint holds the
  rejected candidate's.
\<close>

theorem checkpoint_saved_before_gate:
  assumes "training_iteration W A i s = Some (Inr s')" and "neural_network s < fresh s"
  shows "\<exists>batch tally.
     events s' = events s @
       [Copy (fresh s), Episodes batch, Train (neural_network s) (training_examples s'),
        Save (net_train W (nets s (neural_network s)) (training_examples s')),
        Duels tally,
        if victory_threshold A \<le> int tally then Promote (neural_network s)
        else Revert (fresh s)] \<and>
     checkpoint s' = Some (net_train W (nets s (neural_network s)) (training_examples s')) \<and>
     nets s' (neural_network s) =
       net_train W (nets s (neural_network s)) (training_examples s') \<and>
     neural_network s' =
       (if victory_threshold A \<le> int tally then neural_network s else fresh s) \<and>
     nets s' (fresh s) = nets s (neural_network s)"
proof -
  from training_iteration_result[OF assms] obtain results winners
    where n: "neural_network s' =
                (if victory_threshold A \<le> int (count_victories winners (neural_network s))
                 then neural_network s else fresh s)"
      and w: "nets s' = (nets s)(fresh s := nets s (neural_network s),
                        neural_network s :=
                          net_train W (nets s (neural_network s)) (training_examples s'))"
      and c: "checkpoint s' =
                Some (net_train W (nets s (neural_network s)) (training_examples s'))"
      and e: "events s' = events s @
       [Copy (fresh s), Episodes (concat results),
        Train (neural_network s) (training_examples s'),
        Save (net_train W (nets s (neural_network s)) (training_examples s')),
        Duels (count_victories winners (neural_network s)),
        if victory_threshold A \<le> int (count_victories winners (neural_network s))
        then Promote (neural_network s) else Revert (fresh s)]"
    by blast
  have ne: "neural_network s \<noteq> fresh s" using assms(2) by simp
  have 3: "nets s' (neural_network s) =
       net_train W (nets s (neural_network s)) (training_examples s')"
    by (subst w) simp
  have 4: "nets s' (fresh s) = nets s (neural_network s)"
    using ne by (subst w) simp
  from e c 3 n 4 show ?thesis by blast
qed

theorem checkpoint_saved_before_gate_witness:
  "\<exists>batch tally.
     events toy_reverted = events toy_start @
       [Copy (fresh toy_start), Episodes batch,
        Train (neural_network toy_start) (training_examples toy_reverted),
        Save (net_train toy_world (nets toy_start (neural_network toy_start))
                (training_examples toy_reverted)),
        Duels tally,
        if victory_threshold (toy_args 1) \<le> int tally then Promote (neural_network toy_start)
        else Revert (fresh toy_start)] \<and>
     checkpoint toy_reverted =
       Some (net_train toy_world (nets toy_start (neural_network toy_start))
               (training_examples toy_reverted)) \<and>
     nets toy_reverted (neural_network toy_start) =
       net_train toy_world (nets toy_start (neural_network toy_start))
         (training_examples toy_reverted) \<and>
     neural_network toy_reverted =
       (if victory_threshold (toy_args 1) \<le> int tally then neural_network toy_start
        else fresh toy_start) \<and>
     nets toy_reverted (fresh toy_start) = nets toy_start (neural_network toy_start)"
  by (rule checkpoint_saved_before_gate[OF toy_iteration[of 1] toy_start_inv])

end
